theory Spec2Isabelle
  imports Complex_Main
begin

section \<open>Coordinate codec (\<^verbatim>\<open>r2xy\<close>, \<^verbatim>\<open>xy2r\<close>)\<close>

text \<open>
  Numbers are modelled as reals: the arithmetic of the program is read as exact
  arithmetic, without IEEE rounding, infinities or NaN.  One-dimensional numpy arrays
  are lists.  Where a property depends on whether a division by zero takes place, or
  on which arrays share memory, the functions concerned are modelled a second time
  with the quotient by zero, or the memory, made explicit.

  The only exception the helper functions raise is Python's \<^verbatim>\<open>ValueError\<close>, which
  carries its message.
\<close>

datatype error = ValueError string

text \<open>
  \<^verbatim>\<open>r[::2]\<close>: the elements at the indices 0, 2, 4, ...; \<^verbatim>\<open>r[1::2]\<close> is the same
  slice of \<^verbatim>\<open>r[1:]\<close>.  For an array of odd length the first slice is one element
  longer than the second.
\<close>

fun slice_step2 :: "'a list \<Rightarrow> 'a list" where
  "slice_step2 [] = []"
| "slice_step2 [a] = [a]"
| "slice_step2 (a # b # r) = a # slice_step2 r"

definition r2xy :: "'a list \<Rightarrow> 'a list \<times> 'a list" where
  "r2xy r = (slice_step2 r, slice_step2 (drop 1 r))"

text \<open>
  \<^verbatim>\<open>r[::2] = v\<close>: the slots 0, 2, 4, ... of \<^verbatim>\<open>r\<close> are overwritten with the
  elements of \<^verbatim>\<open>v\<close>, elementwise.  In \<^verbatim>\<open>xy2r\<close> the slice has exactly
  \<^verbatim>\<open>len(v)\<close> slots, so numpy neither broadcasts nor raises there.
\<close>

fun assign_step2 :: "'a list \<Rightarrow> 'a list \<Rightarrow> 'a list" where
  "assign_step2 (a # b # r) (v # vs) = v # b # assign_step2 r vs"
| "assign_step2 [a] (v # vs) = [v]"
| "assign_step2 r vs = r"

definition assign_step2_from1 :: "'a list \<Rightarrow> 'a list \<Rightarrow> 'a list" where
  "assign_step2_from1 r vs = (case r of [] \<Rightarrow> [] | a # r' \<Rightarrow> a # assign_step2 r' vs)"

definition xy2r :: "real list \<Rightarrow> real list \<Rightarrow> error + real list" where
  "xy2r x y =
     (if length x = length y then
        (let r = replicate (2 * length x) 0;
             r = assign_step2 r x;
             r = assign_step2_from1 r y
         in Inr r)
      else Inl (ValueError ''x and y must have the same length!''))"

section \<open>Array operations of numpy used by the energy model\<close>

text \<open>
  A two-dimensional array is the list of its rows.  The energy model only ever builds
  square \<open>N \<times> N\<close> arrays, from the two coordinate sequences of \<open>N\<close> charges (the
  decoding of a position vector of even length).  What numpy does with operands of
  different shapes (broadcasting, or a \<^verbatim>\<open>ValueError\<close>) is not part of these
  definitions; every result about them below is stated for coordinate sequences of
  equal length.
\<close>

type_synonym 'a matrix = "'a list list"

text \<open>\<^verbatim>\<open>np.meshgrid(xi, yi)\<close>: \<open>Xi[a][b] = xi[b]\<close> and \<open>Yi[a][b] = yi[a]\<close>.\<close>

definition meshgrid :: "'a list \<Rightarrow> 'a list \<Rightarrow> 'a matrix \<times> 'a matrix" where
  "meshgrid xi yi = (map (\<lambda>y. xi) yi, map (\<lambda>y. map (\<lambda>x. y) xi) yi)"

definition ncols :: "'a matrix \<Rightarrow> nat" where
  "ncols M = (case M of [] \<Rightarrow> 0 | row # _ \<Rightarrow> length row)"

text \<open>\<^verbatim>\<open>M.T\<close>\<close>

definition np_T :: "'a matrix \<Rightarrow> 'a matrix" where
  "np_T M = map (\<lambda>j. map (\<lambda>i. M ! i ! j) [0..<length M]) [0..<ncols M]"

definition mat_map :: "('a \<Rightarrow> 'b) \<Rightarrow> 'a matrix \<Rightarrow> 'b matrix" where
  "mat_map f A = map (map f) A"

definition mat_map2 :: "('a \<Rightarrow> 'b \<Rightarrow> 'c) \<Rightarrow> 'a matrix \<Rightarrow> 'b matrix \<Rightarrow> 'c matrix" where
  "mat_map2 f A B = map2 (map2 f) A B"

text \<open>\<^verbatim>\<open>np.fill_diagonal(M, v)\<close>\<close>

definition fill_diagonal :: "'a matrix \<Rightarrow> 'a \<Rightarrow> 'a matrix" where
  "fill_diagonal M v = map (\<lambda>i. (M ! i)[i := v]) [0..<length M]"

text \<open>\<^verbatim>\<open>np.sum(M)\<close> and \<^verbatim>\<open>np.sum(M, axis=0)\<close> (the sums of the columns).\<close>

definition np_sum :: "real matrix \<Rightarrow> real" where
  "np_sum M = sum_list (map sum_list M)"

definition np_sum_axis0 :: "real matrix \<Rightarrow> real list" where
  "np_sum_axis0 M = map (\<lambda>j. sum_list (map (\<lambda>row. row ! j) M)) [0..<ncols M]"

text \<open>
  The distance expression \<^verbatim>\<open>np.sqrt((Xi - Xj) ** 2 + (Yi - Yj) ** 2)\<close>, which the
  source writes out in each function that needs it.
\<close>

definition sqrt_sq_sum :: "real matrix \<Rightarrow> real matrix \<Rightarrow> real matrix \<Rightarrow> real matrix \<Rightarrow> real matrix" where
  "sqrt_sq_sum Xi Xj Yi Yj =
     mat_map sqrt (mat_map2 (+) (mat_map (\<lambda>v. v ^ 2) (mat_map2 (-) Xi Xj))
                                (mat_map (\<lambda>v. v ^ 2) (mat_map2 (-) Yi Yj)))"

text \<open>
  The \<open>n \<times> m\<close> array with the entry \<open>g a b\<close> in row \<open>a\<close> and column \<open>b\<close>: the form
  in which the proofs below read every array the energy model builds.
\<close>

definition tab :: "nat \<Rightarrow> nat \<Rightarrow> (nat \<Rightarrow> nat \<Rightarrow> 'a) \<Rightarrow> 'a matrix" where
  "tab n m g = map (\<lambda>a. map (\<lambda>b. g a b) [0..<m]) [0..<n]"

section \<open>Physical constants\<close>

text \<open>
  Both classes set \<^verbatim>\<open>self.qe = 1.602E-19\<close> and \<^verbatim>\<open>self.eps0 = 8.85E-12\<close> in their
  constructor; \<^verbatim>\<open>eps=1E-15\<close> is the default of the parameter \<^verbatim>\<open>eps\<close> of
  \<^verbatim>\<open>Vee\<close> and \<^verbatim>\<open>grad_Vee\<close>, and \<^verbatim>\<open>kB = 1.38E-23\<close> is local to the thermal kick.
\<close>

definition qe :: real where "qe = 1602 / 10 ^ 22"
definition eps0 :: real where "eps0 = 885 / 10 ^ 14"
definition eps_default :: real where "eps_default = 1 / 10 ^ 15"
definition kB :: real where "kB = 138 / 10 ^ 25"

section \<open>\<^verbatim>\<open>class ElectrostaticPotential\<close>\<close>

text \<open>
  The fitted \<^verbatim>\<open>RectBivariateSpline\<close> is an external collaborator.  It is a
  parameter of the model: \<open>ip dx dy x y\<close> is the value of
  \<^verbatim>\<open>interpolator.ev(x, y, dx=dx, dy=dy)\<close> at one point, and \<^verbatim>\<open>ev\<close> on two
  arrays evaluates pointwise.  The methods are prefixed with \<open>EP_\<close>, since the
  class \<^verbatim>\<open>ResonatorSolver\<close> has methods of the same names.
\<close>

type_synonym bivariate_spline = "nat \<Rightarrow> nat \<Rightarrow> real \<Rightarrow> real \<Rightarrow> real"

definition ev :: "bivariate_spline \<Rightarrow> real list \<Rightarrow> real list \<Rightarrow> nat \<Rightarrow> nat \<Rightarrow> real list" where
  "ev ip xi yi dx dy = map2 (ip dx dy) xi yi"

definition EP_V :: "bivariate_spline \<Rightarrow> real list \<Rightarrow> real list \<Rightarrow> real list" where
  "EP_V ip xi yi = ev ip xi yi 0 0"

definition EP_Velectrostatic :: "bivariate_spline \<Rightarrow> real list \<Rightarrow> real list \<Rightarrow> real" where
  "EP_Velectrostatic ip xi yi = qe * sum_list (EP_V ip xi yi)"

text \<open>
  The distance matrix with \<^verbatim>\<open>eps\<close> on its diagonal: the first four statements of
  \<^verbatim>\<open>Vee\<close>, which \<^verbatim>\<open>grad_Vee\<close> repeats literally.
\<close>

definition EP_Rij :: "real list \<Rightarrow> real list \<Rightarrow> real \<Rightarrow> real matrix" where
  "EP_Rij xi yi eps =
     (let (Xi, Yi) = meshgrid xi yi;
          Xj = np_T Xi; Yj = np_T Yi;
          Rij = sqrt_sq_sum Xi Xj Yi Yj
      in fill_diagonal Rij eps)"

definition EP_Vee :: "real list \<Rightarrow> real list \<Rightarrow> real \<Rightarrow> real matrix" where
  "EP_Vee xi yi eps =
     (let Rij = EP_Rij xi yi eps
      in mat_map (\<lambda>R. 1 / 2 * qe ^ 2 / (4 * pi * eps0) * 1 / R) Rij)"

definition EP_Vtotal :: "bivariate_spline \<Rightarrow> real list \<Rightarrow> real" where
  "EP_Vtotal ip r =
     (let (xi, yi) = r2xy r;
          Vtot = EP_Velectrostatic ip xi yi;
          interaction_matrix = EP_Vee xi yi eps_default;
          interaction_matrix = fill_diagonal interaction_matrix 0;
          Vtot = Vtot + np_sum interaction_matrix
      in Vtot / qe)"

definition EP_dVdx :: "bivariate_spline \<Rightarrow> real list \<Rightarrow> real list \<Rightarrow> real list" where
  "EP_dVdx ip xi yi = ev ip xi yi 1 0"

definition EP_ddVdx :: "bivariate_spline \<Rightarrow> real list \<Rightarrow> real list \<Rightarrow> real list" where
  "EP_ddVdx ip xi yi = ev ip xi yi 2 0"

definition EP_dVdy :: "bivariate_spline \<Rightarrow> real list \<Rightarrow> real list \<Rightarrow> real list" where
  "EP_dVdy ip xi yi = ev ip xi yi 0 1"

definition EP_ddVdy :: "bivariate_spline \<Rightarrow> real list \<Rightarrow> real list \<Rightarrow> real list" where
  "EP_ddVdy ip xi yi = ev ip xi yi 0 2"

definition EP_grad_Vee :: "real list \<Rightarrow> real list \<Rightarrow> real \<Rightarrow> real list" where
  "EP_grad_Vee xi yi eps =
     (let (Xi, Yi) = meshgrid xi yi;
          Xj = np_T Xi; Yj = np_T Yi;
          Rij = EP_Rij xi yi eps;
          gradient = replicate (2 * length xi) 0;
          gradx_matrix = mat_map2 (\<lambda>d R. - 1 * qe ^ 2 / (4 * pi * eps0) * d / R ^ 3)
                           (mat_map2 (-) Xi Xj) Rij;
          gradx_matrix = fill_diagonal gradx_matrix 0;
          grady_matrix = mat_map2 (\<lambda>d R. 1 * qe ^ 2 / (4 * pi * eps0) * d / R ^ 3)
                           (mat_map2 (-) Yi Yj) Rij;
          grady_matrix = fill_diagonal grady_matrix 0;
          gradient = assign_step2 gradient (np_sum_axis0 gradx_matrix);
          gradient = assign_step2_from1 gradient (np_sum_axis0 grady_matrix)
      in gradient)"

definition EP_grad_total :: "bivariate_spline \<Rightarrow> real list \<Rightarrow> real list" where
  "EP_grad_total ip r =
     (let (xi, yi) = r2xy r;
          gradient = replicate (length r) 0;
          gradient = assign_step2 gradient (EP_dVdx ip xi yi);
          gradient = assign_step2_from1 gradient (EP_dVdy ip xi yi);
          gradient = map2 (+) gradient (map (\<lambda>g. g / qe) (EP_grad_Vee xi yi eps_default))
      in gradient)"

subsection \<open>Division by the distance matrix, with the zero divisor made visible\<close>

text \<open>
  numpy's division of floats never raises: where the divisor is zero it emits a
  \<^verbatim>\<open>RuntimeWarning\<close> and the quotient is an infinity or NaN, which has no counterpart
  in the reals (the docstring of \<^verbatim>\<open>grad_Vee\<close> says that \<^verbatim>\<open>eps\<close> is there "to avoid
  triggering Warning message").  In the definitions above the quotient by zero is
  the number HOL gives it, so they cannot tell whether a zero distance was ever
  divided by.  The functions that divide by the distance matrix are therefore
  modelled a second time, suffixed with \<open>_fp\<close>, over entries of type
  \<^typ>\<open>real option\<close>: \<open>None\<close> is the quotient that is not finite.  A sum is not finite
  as soon as one of its terms is not, and \<^verbatim>\<open>np.fill_diagonal\<close> overwrites whatever an
  entry held.  The divisions by the constants \<open>2.\<close> and \<open>4\<pi>\<cdot>eps0\<close> are by numbers that
  are not zero and stay as they are.  \<open>EP_gradx_matrix\<close> and \<open>EP_grady_matrix\<close> are
  the local variables \<^verbatim>\<open>gradx_matrix\<close> and \<^verbatim>\<open>grady_matrix\<close> of \<^verbatim>\<open>grad_Vee\<close> as first
  assigned, before their diagonal is zeroed.
\<close>

definition np_divide :: "real \<Rightarrow> real \<Rightarrow> real option" where
  "np_divide a b = (if b = 0 then None else Some (a / b))"

fun sum_fp :: "real option list \<Rightarrow> real option" where
  "sum_fp [] = Some 0"
| "sum_fp (v # vs) = (case (v, sum_fp vs) of (Some a, Some s) \<Rightarrow> Some (a + s) | _ \<Rightarrow> None)"

definition np_sum_fp :: "real option matrix \<Rightarrow> real option" where
  "np_sum_fp M = sum_fp (map sum_fp M)"

definition np_sum_axis0_fp :: "real option matrix \<Rightarrow> real option list" where
  "np_sum_axis0_fp M = map (\<lambda>j. sum_fp (map (\<lambda>row. row ! j) M)) [0..<ncols M]"

definition EP_Vee_fp :: "real list \<Rightarrow> real list \<Rightarrow> real \<Rightarrow> real option matrix" where
  "EP_Vee_fp xi yi eps =
     (let Rij = EP_Rij xi yi eps
      in mat_map (\<lambda>R. np_divide (1 / 2 * qe ^ 2 / (4 * pi * eps0) * 1) R) Rij)"

definition EP_gradx_matrix :: "real list \<Rightarrow> real list \<Rightarrow> real \<Rightarrow> real option matrix" where
  "EP_gradx_matrix xi yi eps =
     (let (Xi, Yi) = meshgrid xi yi;
          Xj = np_T Xi; Yj = np_T Yi;
          Rij = EP_Rij xi yi eps
      in mat_map2 (\<lambda>d R. np_divide (- 1 * qe ^ 2 / (4 * pi * eps0) * d) (R ^ 3))
           (mat_map2 (-) Xi Xj) Rij)"

definition EP_grady_matrix :: "real list \<Rightarrow> real list \<Rightarrow> real \<Rightarrow> real option matrix" where
  "EP_grady_matrix xi yi eps =
     (let (Xi, Yi) = meshgrid xi yi;
          Xj = np_T Xi; Yj = np_T Yi;
          Rij = EP_Rij xi yi eps
      in mat_map2 (\<lambda>d R. np_divide (1 * qe ^ 2 / (4 * pi * eps0) * d) (R ^ 3))
           (mat_map2 (-) Yi Yj) Rij)"

definition EP_grad_Vee_fp :: "real list \<Rightarrow> real list \<Rightarrow> real \<Rightarrow> real option list" where
  "EP_grad_Vee_fp xi yi eps =
     (let gradient = replicate (2 * length xi) (Some 0);
          gradx_matrix = EP_gradx_matrix xi yi eps;
          gradx_matrix = fill_diagonal gradx_matrix (Some 0);
          grady_matrix = EP_grady_matrix xi yi eps;
          grady_matrix = fill_diagonal grady_matrix (Some 0);
          gradient = assign_step2 gradient (np_sum_axis0_fp gradx_matrix);
          gradient = assign_step2_from1 gradient (np_sum_axis0_fp grady_matrix)
      in gradient)"

section \<open>\<^verbatim>\<open>class ResonatorSolver\<close>\<close>

text \<open>
  The fitted \<^verbatim>\<open>UnivariateSpline\<close> and the two derivative splines obtained from it
  in the constructor are external collaborators, hence fields of the record, with
  the domain length \<^verbatim>\<open>box_y_length\<close>.  Calling a spline on an array evaluates it
  pointwise.  The methods are prefixed with \<open>RS_\<close> where the name is shared with
  \<^verbatim>\<open>ElectrostaticPotential\<close>.
\<close>

record ResonatorSolver =
  interpolator :: "real \<Rightarrow> real"
  derivative :: "real \<Rightarrow> real"
  second_derivative :: "real \<Rightarrow> real"
  box_y_length :: real

text \<open>
  Python's \<^verbatim>\<open>%\<close> on floats, for a divisor that is not zero: the remainder has the
  sign of the divisor.  (For a zero divisor numpy returns NaN, which has no
  counterpart here; the results below assume a positive domain length.)
\<close>

definition np_mod :: "real \<Rightarrow> real \<Rightarrow> real" where
  "np_mod a b = a - b * of_int \<lfloor>a / b\<rfloor>"

definition map_y_into_domain :: "ResonatorSolver \<Rightarrow> real list \<Rightarrow> (real \<times> real) option \<Rightarrow> real list" where
  "map_y_into_domain self y ybounds =
     (let ybounds = (case ybounds of
                       None \<Rightarrow> (- box_y_length self / 2, box_y_length self / 2)
                     | Some b \<Rightarrow> b)
      in map (\<lambda>v. fst ybounds + np_mod (v - fst ybounds) (snd ybounds - fst ybounds)) y)"

text \<open>\<^verbatim>\<open>Yi_shifted[Yi_shifted > 0] -= self.box_y_length\<close> on a copy of \<^verbatim>\<open>Yi\<close>.\<close>

definition shift_positive :: "ResonatorSolver \<Rightarrow> real matrix \<Rightarrow> real matrix" where
  "shift_positive self Yi = mat_map (\<lambda>v. if v > 0 then v - box_y_length self else v) Yi"

definition calculate_Rij :: "ResonatorSolver \<Rightarrow> real list \<Rightarrow> real list \<Rightarrow> real matrix" where
  "calculate_Rij self xi yi =
     (let (Xi, Yi) = meshgrid xi yi;
          Xj = np_T Xi; Yj = np_T Yi;
          Rij_standard = sqrt_sq_sum Xi Xj Yi Yj;
          Yi_shifted = shift_positive self Yi;
          Yj_shifted = np_T Yi_shifted;
          Rij_shifted = sqrt_sq_sum Xi Xj Yi_shifted Yj_shifted
      in mat_map2 min Rij_standard Rij_shifted)"

text \<open>
  \<^verbatim>\<open>np.copyto(YiYj, YiYj_shifted, where=Rij_shifted<Rij_standard)\<close> overwrites an
  entry of \<^verbatim>\<open>YiYj\<close> where the condition holds.
\<close>

definition copyto_where :: "real matrix \<Rightarrow> real matrix \<Rightarrow> bool matrix \<Rightarrow> real matrix" where
  "copyto_where dst src cond = mat_map2 (\<lambda>(d, s) w. if w then s else d) (mat_map2 Pair dst src) cond"

definition calculate_YiYj :: "ResonatorSolver \<Rightarrow> real list \<Rightarrow> real list \<Rightarrow> real matrix" where
  "calculate_YiYj self xi yi =
     (let (Xi, Yi) = meshgrid xi yi;
          Xj = np_T Xi; Yj = np_T Yi;
          Yi_shifted = shift_positive self Yi;
          Yj_shifted = np_T Yi_shifted;
          Rij_standard = sqrt_sq_sum Xi Xj Yi Yj;
          Rij_shifted = sqrt_sq_sum Xi Xj Yi_shifted Yj_shifted;
          YiYj = mat_map2 (-) Yi Yj;
          YiYj_shifted = mat_map2 (-) Yi_shifted Yj_shifted
      in copyto_where YiYj YiYj_shifted (mat_map2 (<) Rij_shifted Rij_standard))"

definition RS_V :: "ResonatorSolver \<Rightarrow> real list \<Rightarrow> real list \<Rightarrow> real list" where
  "RS_V self xi yi = map (interpolator self) xi"

definition RS_Velectrostatic :: "ResonatorSolver \<Rightarrow> real list \<Rightarrow> real list \<Rightarrow> real" where
  "RS_Velectrostatic self xi yi = qe * sum_list (RS_V self xi yi)"

definition RS_Vee :: "ResonatorSolver \<Rightarrow> real list \<Rightarrow> real list \<Rightarrow> real \<Rightarrow> real matrix" where
  "RS_Vee self xi yi eps =
     (let yi = map_y_into_domain self yi None;
          Rij = calculate_Rij self xi yi;
          Rij = fill_diagonal Rij eps
      in mat_map (\<lambda>R. 1 / 2 * qe ^ 2 / (4 * pi * eps0) * 1 / R) Rij)"

definition RS_Vtotal :: "ResonatorSolver \<Rightarrow> real list \<Rightarrow> real" where
  "RS_Vtotal self r =
     (let (xi, yi) = r2xy r;
          Vtot = RS_Velectrostatic self xi yi;
          interaction_matrix = RS_Vee self xi yi eps_default;
          interaction_matrix = fill_diagonal interaction_matrix 0;
          Vtot = Vtot + np_sum interaction_matrix
      in Vtot / qe)"

definition RS_dVdx :: "ResonatorSolver \<Rightarrow> real list \<Rightarrow> real list \<Rightarrow> real list" where
  "RS_dVdx self xi yi = map (derivative self) xi"

definition RS_ddVdx :: "ResonatorSolver \<Rightarrow> real list \<Rightarrow> real list \<Rightarrow> real list" where
  "RS_ddVdx self xi yi = map (second_derivative self) xi"

definition RS_dVdy :: "ResonatorSolver \<Rightarrow> real list \<Rightarrow> real list \<Rightarrow> real list" where
  "RS_dVdy self xi yi = replicate (length xi) 0"

definition RS_ddVdy :: "ResonatorSolver \<Rightarrow> real list \<Rightarrow> real list \<Rightarrow> real list" where
  "RS_ddVdy self xi yi = replicate (length xi) 0"

definition RS_grad_Vee :: "ResonatorSolver \<Rightarrow> real list \<Rightarrow> real list \<Rightarrow> real \<Rightarrow> real list" where
  "RS_grad_Vee self xi yi eps =
     (let yi = map_y_into_domain self yi None;
          (Xi, Yi) = meshgrid xi yi;
          Xj = np_T Xi; Yj = np_T Yi;
          Rij = calculate_Rij self xi yi;
          Rij = fill_diagonal Rij eps;
          gradient = replicate (2 * length xi) 0;
          gradx_matrix = mat_map2 (\<lambda>d R. - 1 * qe ^ 2 / (4 * pi * eps0) * d / R ^ 3)
                           (mat_map2 (-) Xi Xj) Rij;
          gradx_matrix = fill_diagonal gradx_matrix 0;
          YiYj = calculate_YiYj self xi yi;
          grady_matrix = mat_map2 (\<lambda>d R. 1 * qe ^ 2 / (4 * pi * eps0) * d / R ^ 3) YiYj Rij;
          grady_matrix = fill_diagonal grady_matrix 0;
          gradient = assign_step2 gradient (np_sum_axis0 gradx_matrix);
          gradient = assign_step2_from1 gradient (np_sum_axis0 grady_matrix)
      in gradient)"

definition RS_grad_total :: "ResonatorSolver \<Rightarrow> real list \<Rightarrow> real list" where
  "RS_grad_total self r =
     (let (xi, yi) = r2xy r;
          gradient = replicate (length r) 0;
          gradient = assign_step2 gradient (RS_dVdx self xi yi);
          gradient = assign_step2_from1 gradient (RS_dVdy self xi yi);
          gradient = map2 (+) gradient (map (\<lambda>g. g / qe) (RS_grad_Vee self xi yi eps_default))
      in gradient)"

text \<open>
  The thermal displacement amplitude.  Where the curvature vanishes numpy divides by
  zero without raising and returns an infinity or NaN for that amplitude, a value
  with no counterpart in the reals; nothing proved below depends on the amplitude.
\<close>

definition thermal_kick_x :: "ResonatorSolver \<Rightarrow> real list \<Rightarrow> real list \<Rightarrow> real \<Rightarrow> real list" where
  "thermal_kick_x self x y T =
     (let ktrapx = map (\<lambda>d. \<bar>qe * d\<bar>) (RS_ddVdx self x y)
      in map (\<lambda>k. sqrt (2 * kB * T / k)) ktrapx)"

subsection \<open>The minimum-image difference\<close>

text \<open>
  The representative of \<open>d\<close> modulo \<open>L\<close> in \<open>[-L/2, L/2)\<close>.  It is not a function of
  the source: it is the closed form in which the proofs below read the y-separation
  that \<^verbatim>\<open>calculate_Rij\<close> and \<^verbatim>\<open>calculate_YiYj\<close> select between the direct and the
  shifted difference of the mapped coordinates.
\<close>

definition wrapd :: "real \<Rightarrow> real \<Rightarrow> real" where
  "wrapd L d = d - L * of_int \<lfloor>d / L + 1 / 2\<rfloor>"

section \<open>\<^verbatim>\<open>ResonatorSolver.perturb_and_solve\<close>\<close>

text \<open>
  The record scipy's \<^verbatim>\<open>minimize\<close> returns, read by the source through the keys
  \<^verbatim>\<open>'x'\<close>, \<^verbatim>\<open>'fun'\<close> and \<^verbatim>\<open>'status'\<close>.
\<close>

record OptimizeResult =
  res_x :: "real list"
  res_fun :: real
  res_status :: int

text \<open>
  An arithmetic operator of numpy on two one-dimensional arrays: elementwise on
  equal lengths, an array of length one is broadcast, any other pair of lengths
  raises.
\<close>

definition np_binop :: "(real \<Rightarrow> real \<Rightarrow> real) \<Rightarrow> real list \<Rightarrow> real list \<Rightarrow> error + real list" where
  "np_binop f a b =
     (if length a = length b then Inr (map2 f a b)
      else if length a = 1 then Inr (map (f (hd a)) b)
      else if length b = 1 then Inr (map (\<lambda>u. f u (hd b)) a)
      else Inl (ValueError ''operands could not be broadcast together''))"

text \<open>
  \<^verbatim>\<open>np.random.randn(n)\<close> draws from numpy's global generator.  The generator's
  state is the sequence of the samples still to come; a call takes the first \<open>n\<close>.
\<close>

type_synonym rng = "nat \<Rightarrow> real"

definition randn :: "rng \<Rightarrow> nat \<Rightarrow> real list \<times> rng" where
  "randn g n = (map g [0..<n], \<lambda>i. g (i + n))"

text \<open>The three status lines the loop prints with \<^verbatim>\<open>cprint\<close>.\<close>

datatype message =
    New_minimum_found          \<comment> \<open>\<^verbatim>\<open>"New minimum was found after perturbing!"\<close>\<close>
  | Lower_state_not_converged  \<comment> \<open>\<^verbatim>\<open>"There is a lower state, but minimizer didn't converge!"\<close>\<close>
  | Not_converged_not_lowest   \<comment> \<open>\<^verbatim>\<open>"Minimizer didn't converge, but this is not the lowest energy state!"\<close>\<close>

text \<open>
  The variables that live across the iterations of the loop, with the state of the
  random generator and the lines printed so far.
\<close>

record anneal_state =
  electron_initial_positions :: "real list"
  best_result :: OptimizeResult
  rng_state :: rng
  printed :: "message list"

text \<open>
  The minimizer is an external collaborator: \<open>minimize cost_function x0\<close> stands for
  \<^verbatim>\<open>minimize(cost_function, x0, method='CG', **kwargs)\<close>.
\<close>

type_synonym minimizer = "(real list \<Rightarrow> real) \<Rightarrow> real list \<Rightarrow> OptimizeResult"

text \<open>One iteration of the loop.\<close>

definition perturb_and_solve_body ::
  "ResonatorSolver \<Rightarrow> minimizer \<Rightarrow> (real list \<Rightarrow> real) \<Rightarrow> real \<Rightarrow> anneal_state \<Rightarrow> error + anneal_state" where
  "perturb_and_solve_body self minimize cost_function T s =
     (let (xi, yi) = r2xy (electron_initial_positions s);
          (z1, g1) = randn (rng_state s) (length xi)
      in case np_binop (*) (thermal_kick_x self xi yi T) z1 of Inl e \<Rightarrow> Inl e | Inr d1 \<Rightarrow>
         case np_binop (+) xi d1 of Inl e \<Rightarrow> Inl e | Inr xi_prime \<Rightarrow>
         let (z2, g2) = randn g1 (length yi)
         in case np_binop (*) (thermal_kick_x self xi yi T) z2 of Inl e \<Rightarrow> Inl e | Inr d2 \<Rightarrow>
            case np_binop (+) yi d2 of Inl e \<Rightarrow> Inl e | Inr yi_prime \<Rightarrow>
            case xy2r xi_prime yi_prime of Inl e \<Rightarrow> Inl e | Inr electron_perturbed_positions \<Rightarrow>
            let res = minimize cost_function electron_perturbed_positions;
                s = s\<lparr>rng_state := g2\<rparr>
            in Inr (if res_status res = 0 \<and> res_fun res < res_fun (best_result s) then
                      s\<lparr>best_result := res, printed := printed s @ [New_minimum_found]\<rparr>
                    else if res_status res = 0 \<and> res_fun res > res_fun (best_result s) then
                      s
                    else if res_status res \<noteq> 0 \<and> res_fun res < res_fun (best_result s) then
                      s\<lparr>printed := printed s @ [Lower_state_not_converged]\<rparr>
                    else if res_status res \<noteq> 0 \<and> res_fun res > res_fun (best_result s) then
                      s\<lparr>printed := printed s @ [Not_converged_not_lowest]\<rparr>
                    else s))"

text \<open>\<^verbatim>\<open>for n in range(N_perturbations)\<close>: the body, \<open>k\<close> times in sequence.\<close>

primrec perturb_and_solve_loop ::
  "ResonatorSolver \<Rightarrow> minimizer \<Rightarrow> (real list \<Rightarrow> real) \<Rightarrow> real \<Rightarrow> nat \<Rightarrow> anneal_state \<Rightarrow> error + anneal_state" where
  "perturb_and_solve_loop self minimize cost_function T 0 s = Inr s"
| "perturb_and_solve_loop self minimize cost_function T (Suc k) s =
     (case perturb_and_solve_body self minimize cost_function T s of
        Inl e \<Rightarrow> Inl e
      | Inr s' \<Rightarrow> perturb_and_solve_loop self minimize cost_function T k s')"

text \<open>The state in which the loop is entered.\<close>

definition perturb_and_solve_init :: "rng \<Rightarrow> OptimizeResult \<Rightarrow> anneal_state" where
  "perturb_and_solve_init g solution_data_reference =
     \<lparr>electron_initial_positions = res_x solution_data_reference,
      best_result = solution_data_reference,
      rng_state = g,
      printed = []\<rparr>"

text \<open>
  \<^verbatim>\<open>range(N_perturbations)\<close> is empty for a count that is not positive, hence
  \<open>nat N_perturbations\<close> iterations.
\<close>

definition perturb_and_solve ::
  "ResonatorSolver \<Rightarrow> minimizer \<Rightarrow> rng \<Rightarrow> (real list \<Rightarrow> real) \<Rightarrow> int \<Rightarrow> real \<Rightarrow> OptimizeResult \<Rightarrow> error + OptimizeResult" where
  "perturb_and_solve self minimize g cost_function N_perturbations T solution_data_reference =
     (case perturb_and_solve_loop self minimize cost_function T (nat N_perturbations)
             (perturb_and_solve_init g solution_data_reference) of
        Inl e \<Rightarrow> Inl e
      | Inr s \<Rightarrow> Inr (best_result s))"

section \<open>The helper functions on arrays in memory\<close>

text \<open>
  A numpy array is a view on a buffer: slicing shares the buffer, and an indexed
  assignment writes through the view into it.  To tell which calls change the arrays
  of their caller, the helper functions are modelled a second time on a memory of
  buffers, with a one-dimensional array given by its buffer, the index of its first
  element, its step and its length.
\<close>

record ndarray =
  buf :: nat
  start :: nat
  step :: nat
  len :: nat

record memory =
  buffers :: "nat \<Rightarrow> real list"
  next_buf :: nat

definition contents :: "memory \<Rightarrow> ndarray \<Rightarrow> real list" where
  "contents m a = map (\<lambda>i. buffers m (buf a) ! (start a + i * step a)) [0..<len a]"

text \<open>A new array owns a new buffer.\<close>

definition new_array :: "memory \<Rightarrow> real list \<Rightarrow> memory \<times> ndarray" where
  "new_array m vals =
     (m\<lparr>buffers := (buffers m)(next_buf m := vals), next_buf := Suc (next_buf m)\<rparr>,
      \<lparr>buf = next_buf m, start = 0, step = 1, len = length vals\<rparr>)"

text \<open>\<^verbatim>\<open>a[i] = v\<close>\<close>

definition set_item :: "memory \<Rightarrow> ndarray \<Rightarrow> nat \<Rightarrow> real \<Rightarrow> memory" where
  "set_item m a i v =
     m\<lparr>buffers := (buffers m)(buf a := (buffers m (buf a))[start a + i * step a := v])\<rparr>"

text \<open>\<^verbatim>\<open>a[...] = vals\<close> for values already read, one for each element of the view.\<close>

definition assign_elems :: "memory \<Rightarrow> ndarray \<Rightarrow> real list \<Rightarrow> memory" where
  "assign_elems m a vals = foldl (\<lambda>m i. set_item m a i (vals ! i)) m [0..<len a]"

text \<open>
  \<^verbatim>\<open>a[cond(a)] = v\<close>: the boolean index is computed from the array first, then
  \<open>v\<close> is written where it holds.
\<close>

definition assign_where :: "memory \<Rightarrow> ndarray \<Rightarrow> (real \<Rightarrow> bool) \<Rightarrow> real \<Rightarrow> memory" where
  "assign_where m a cond v =
     (let index = map cond (contents m a)
      in foldl (\<lambda>m i. if index ! i then set_item m a i v else m) m [0..<len a])"

text \<open>The views \<^verbatim>\<open>a[::2]\<close> and \<^verbatim>\<open>a[1::2]\<close>.\<close>

definition view_step2 :: "ndarray \<Rightarrow> ndarray" where
  "view_step2 a = a\<lparr>step := 2 * step a, len := (len a + 1) div 2\<rparr>"

definition view_step2_from1 :: "ndarray \<Rightarrow> ndarray" where
  "view_step2_from1 a = a\<lparr>start := start a + step a, step := 2 * step a, len := len a div 2\<rparr>"

definition r2xy_mem :: "memory \<Rightarrow> ndarray \<Rightarrow> memory \<times> ndarray \<times> ndarray" where
  "r2xy_mem m r = (m, view_step2 r, view_step2_from1 r)"

definition xy2r_mem :: "memory \<Rightarrow> ndarray \<Rightarrow> ndarray \<Rightarrow> error + memory \<times> ndarray" where
  "xy2r_mem m x y =
     (if len x = len y then
        (let (m, r) = new_array m (replicate (2 * len x) 0);
             m = assign_elems m (view_step2 r) (contents m x);
             m = assign_elems m (view_step2_from1 r) (contents m y)
         in Inr (m, r))
      else Inl (ValueError ''x and y must have the same length!''))"

text \<open>
  \<^verbatim>\<open>map_into_domain\<close>: the first statement binds the local name \<^verbatim>\<open>xi\<close> to a new
  array; the two assignments to \<^verbatim>\<open>yi[...]\<close> write into the array passed in.
\<close>

definition map_into_domain ::
  "memory \<Rightarrow> ndarray \<Rightarrow> ndarray \<Rightarrow> real \<times> real \<Rightarrow> real \<times> real \<Rightarrow> memory \<times> ndarray \<times> ndarray" where
  "map_into_domain m xi yi xbounds ybounds =
     (let (left_boundary, right_boundary) = xbounds;
          (bottom_boundary, top_boundary) = ybounds;
          L = right_boundary - left_boundary;
          W = top_boundary - bottom_boundary;
          (m, xi) = new_array m
                      (map (\<lambda>x. \<bar>L - np_mod (x - right_boundary) (2 * L)\<bar> + left_boundary)
                           (contents m xi));
          m = assign_where m yi (\<lambda>y. y > top_boundary) top_boundary;
          m = assign_where m yi (\<lambda>y. y < bottom_boundary) bottom_boundary
      in (m, xi, yi))"

text \<open>
  A view that lies within an allocated buffer and whose elements are distinct cells
  of it: what every array a caller can pass is.
\<close>

definition valid_view :: "memory \<Rightarrow> ndarray \<Rightarrow> bool" where
  "valid_view m a \<longleftrightarrow>
     buf a < next_buf m \<and> 0 < step a \<and>
     (len a = 0 \<or> start a + (len a - 1) * step a < length (buffers m (buf a)))"

text \<open>The indices of the cells of its buffer that a view addresses.\<close>

definition cells :: "ndarray \<Rightarrow> nat set" where
  "cells a = (\<lambda>i. start a + i * step a) ` {..<len a}"

section \<open>Concrete inputs\<close>

text \<open>
  A solver over a harmonic potential, a minimizer that moves every coordinate of its
  starting point by one and reports the energy \<open>5 - x0[0]\<close> as converged, a random
  generator that only draws zeros, and a converged starting solution at the origin
  with energy 10.
\<close>

definition example_solver :: ResonatorSolver where
  "example_solver = \<lparr>interpolator = (\<lambda>x. x ^ 2 / 2), derivative = (\<lambda>x. x),
                     second_derivative = (\<lambda>x. 1), box_y_length = 4\<rparr>"

definition example_minimize :: minimizer where
  "example_minimize cost_function x0 =
     \<lparr>res_x = map (\<lambda>v. v + 1) x0, res_fun = 5 - hd x0, res_status = 0\<rparr>"

definition example_rng :: rng where
  "example_rng = (\<lambda>i. 0)"

definition example_reference :: OptimizeResult where
  "example_reference = \<lparr>res_x = [0, 0], res_fun = 10, res_status = 0\<rparr>"

text \<open>
  The scenario of the specification: an external field that is zero everywhere, and
  two charges at \<open>(0, 0)\<close> and \<open>(1e-6, 0)\<close>.
\<close>

definition zero_field :: bivariate_spline where
  "zero_field dx dy x y = 0"

definition two_charges :: "real list" where
  "two_charges = [0, 0, 1 / 10 ^ 6, 0]"

text \<open>
  A memory with two arrays of one element each, \<open>[0]\<close> and \<open>[2]\<close>, passed as
  \<^verbatim>\<open>xi\<close> and \<^verbatim>\<open>yi\<close>.
\<close>

definition example_memory :: memory where
  "example_memory = \<lparr>buffers = (\<lambda>b. [])(0 := [0], 1 := [2]), next_buf = 2\<rparr>"

definition example_xi :: ndarray where
  "example_xi = \<lparr>buf = 0, start = 0, step = 1, len = 1\<rparr>"

definition example_yi :: ndarray where
  "example_yi = \<lparr>buf = 1, start = 0, step = 1, len = 1\<rparr>"

text \<open>
  A memory with one array \<open>r = [0, 2]\<close>, whose decoding \<^verbatim>\<open>xi, yi = r2xy(r)\<close> gives two
  views on the one buffer.
\<close>

definition shared_memory :: memory where
  "shared_memory = \<lparr>buffers = (\<lambda>b. [])(0 := [0, 2]), next_buf = 1\<rparr>"

definition shared_r :: ndarray where
  "shared_r = \<lparr>buf = 0, start = 0, step = 1, len = 2\<rparr>"

text \<open>
  Two charges on the line \<open>x = 0\<close> of the periodic domain of length 4, at \<open>y = 1\<close>
  and \<open>y = -1\<close>: half the domain length apart, so that the direct and the wrapped
  separation are equal.
\<close>

definition tie_position :: "real list" where
  "tie_position = [0, 1, 0, - 1]"

section \<open>Properties of the codec\<close>

lemma length_slice_step2: "length (slice_step2 r) = (length r + 1) div 2"
  by (induction r rule: slice_step2.induct) auto

lemma nth_slice_step2: "2 * k < length r \<Longrightarrow> slice_step2 r ! k = r ! (2 * k)"
proof (induction r arbitrary: k rule: slice_step2.induct)
  case (3 a b r)
  then show ?case by (cases k) auto
qed auto

lemma length_slice_drop1: "length (slice_step2 (drop 1 r)) = length r div 2"
  by (simp add: length_slice_step2)

lemma nth_slice_drop1: "2 * k + 1 < length r \<Longrightarrow> slice_step2 (drop 1 r) ! k = r ! (2 * k + 1)"
  by (simp add: nth_slice_step2)

lemma slice_step2_Cons: "slice_step2 (b # r) = b # slice_step2 (drop 1 r)"
  by (cases r) simp_all

lemma assign_step2_Cons: "assign_step2 (z # rest) (b # ys) = b # assign_step2_from1 rest ys"
  by (cases rest) (simp_all add: assign_step2_from1_def)

lemma assign_step2_from1_Cons: "assign_step2_from1 (a # rest) ys = a # assign_step2 rest ys"
  by (simp add: assign_step2_from1_def)

text \<open>
  Filling the even and then the odd slots of an array of length \<open>2n\<close> with two
  sequences of length \<open>n\<close> interleaves them, whatever the array held before.
\<close>

lemma assign_both_interleaves:
  "length x = length y \<Longrightarrow>
   assign_step2_from1 (assign_step2 (replicate (2 * length x) z) x) y
     = concat (map2 (\<lambda>a b. [a, b]) x y)"
proof (induction x y rule: list_induct2)
  case Nil
  show ?case by (simp add: assign_step2_from1_def)
next
  case (Cons a xs b ys)
  have "replicate (2 * length (a # xs)) z = z # z # replicate (2 * length xs) z" by simp
  then show ?case
    using Cons.IH by (simp only: assign_step2.simps assign_step2_from1_Cons assign_step2_Cons)
       simp
qed

lemma xy2r_interleave:
  "length x = length y \<Longrightarrow> xy2r x y = Inr (concat (map2 (\<lambda>a b. [a, b]) x y))"
  using assign_both_interleaves [of x y 0] by (simp add: xy2r_def Let_def)

lemma slice_interleave:
  "length x = length y \<Longrightarrow> slice_step2 (concat (map2 (\<lambda>a b. [a, b]) x y)) = x"
  by (induction x y rule: list_induct2) auto

lemma slice1_interleave:
  "length x = length y \<Longrightarrow> slice_step2 (drop 1 (concat (map2 (\<lambda>a b. [a, b]) x y))) = y"
proof (induction x y rule: list_induct2)
  case (Cons a xs b ys)
  then show ?case by (cases xs; cases ys) auto
qed simp

lemma interleave_slices:
  "even (length r) \<Longrightarrow>
   concat (map2 (\<lambda>a b. [a, b]) (slice_step2 r) (slice_step2 (drop 1 r))) = r"
  by (induction r rule: slice_step2.induct) (auto simp: slice_step2_Cons)

lemma length_interleave:
  "length x = length y \<Longrightarrow> length (concat (map2 (\<lambda>a b. [a, b]) x y)) = 2 * length x"
  by (induction x y rule: list_induct2) auto

lemma nth_interleave:
  "length x = length y \<Longrightarrow> k < length x \<Longrightarrow>
   concat (map2 (\<lambda>a b. [a, b]) x y) ! (2 * k) = x ! k \<and>
   concat (map2 (\<lambda>a b. [a, b]) x y) ! (2 * k + 1) = y ! k"
proof (induction x y arbitrary: k rule: list_induct2)
  case (Cons a xs b ys)
  then show ?case by (cases k) auto
qed simp

lemma r2xy_lengths:
  "even (length r) \<Longrightarrow> length (fst (r2xy r)) = length r div 2 \<and> length (snd (r2xy r)) = length r div 2"
  by (auto simp: r2xy_def length_slice_step2 elim: evenE)

lemma r2xy_nth:
  "even (length r) \<Longrightarrow> k < length r div 2 \<Longrightarrow>
   fst (r2xy r) ! k = r ! (2 * k) \<and> snd (r2xy r) ! k = r ! (2 * k + 1)"
  by (auto simp: r2xy_def nth_slice_step2 elim!: evenE)

text \<open>
  Claim C6.  Decoding an encoded pair of coordinate sequences of equal length gives
  the pair back, and encoding the decoding of a position vector of even length gives
  the vector back; under both maps the \<open>k\<close>-th charge has its \<open>x\<close> at index \<open>2k\<close>
  and its \<open>y\<close> at index \<open>2k + 1\<close> of the position vector.
\<close>

theorem codec_round_trip:
  "(length x = length y \<longrightarrow>
      (\<exists>r. xy2r x y = Inr r \<and> r2xy r = (x, y) \<and>
           (\<forall>k < length x. r ! (2 * k) = x ! k \<and> r ! (2 * k + 1) = y ! k))) \<and>
   (even (length r) \<longrightarrow>
      xy2r (fst (r2xy r)) (snd (r2xy r)) = Inr r \<and>
      (\<forall>k < length r div 2. fst (r2xy r) ! k = r ! (2 * k) \<and> snd (r2xy r) ! k = r ! (2 * k + 1)))"
proof (intro conjI impI)
  assume eq: "length x = length y"
  let ?r = "concat (map2 (\<lambda>a b. [a, b]) x y)"
  have "xy2r x y = Inr ?r" using eq by (rule xy2r_interleave)
  moreover have "r2xy ?r = (x, y)"
    using slice_interleave [OF eq] slice1_interleave [OF eq] by (simp add: r2xy_def)
  moreover have "\<forall>k < length x. ?r ! (2 * k) = x ! k \<and> ?r ! (2 * k + 1) = y ! k"
    using eq nth_interleave by blast
  ultimately show "\<exists>r. xy2r x y = Inr r \<and> r2xy r = (x, y) \<and>
           (\<forall>k < length x. r ! (2 * k) = x ! k \<and> r ! (2 * k + 1) = y ! k)"
    by blast
next
  assume ev: "even (length r)"
  have "length (fst (r2xy r)) = length (snd (r2xy r))"
    using r2xy_lengths [OF ev] by simp
  then have "xy2r (fst (r2xy r)) (snd (r2xy r))
               = Inr (concat (map2 (\<lambda>a b. [a, b]) (fst (r2xy r)) (snd (r2xy r))))"
    by (rule xy2r_interleave)
  then show "xy2r (fst (r2xy r)) (snd (r2xy r)) = Inr r"
    using interleave_slices [OF ev] by (simp add: r2xy_def)
next
  assume ev: "even (length r)"
  show "\<forall>k < length r div 2. fst (r2xy r) ! k = r ! (2 * k) \<and> snd (r2xy r) ! k = r ! (2 * k + 1)"
    using r2xy_nth [OF ev] by blast
qed

theorem codec_round_trip_witness:
  "xy2r [1, 2] [3, 4] = Inr [1, 3, 2, 4] \<and> r2xy [1, 3, 2, 4 :: real] = ([1, 2], [3, 4]) \<and>
   xy2r (fst (r2xy [1, 3, 2, 4])) (snd (r2xy [1, 3, 2, 4])) = Inr [1, 3, 2, 4]"
proof -
  have l: "length [1, 2 :: real] = length [3, 4 :: real]" by simp
  have e: "even (length [1, 3, 2, 4 :: real])" by simp
  from codec_round_trip [of "[1, 2]" "[3, 4]" "[1, 3, 2, 4]"] l e
  obtain r where r: "xy2r [1, 2] [3, 4] = Inr r" "r2xy r = ([1, 2], [3, 4])"
    and enc: "xy2r (fst (r2xy [1, 3, 2, 4])) (snd (r2xy [1, 3, 2, 4])) = Inr [1, 3, 2, 4]"
    by blast
  have "xy2r [1, 2] [3, 4] = Inr [1, 3, 2, 4]"
    by (simp add: xy2r_def assign_step2_from1_def numeral_2_eq_2)
  with r enc show ?thesis by simp
qed

text \<open>
  Claim C7.  \<^verbatim>\<open>xy2r(x, y)\<close> raises its error (Python's \<^verbatim>\<open>ValueError\<close>, the
  shape mismatch of the specification) exactly when the two lengths differ, and then
  returns no array at all; on equal lengths it returns an array of twice that length.
\<close>

theorem xy2r_raises_iff_lengths_differ:
  "((\<exists>msg. xy2r x y = Inl (ValueError msg)) \<longleftrightarrow> length x \<noteq> length y) \<and>
   (length x \<noteq> length y \<longrightarrow> (\<forall>r. xy2r x y \<noteq> Inr r)) \<and>
   (length x = length y \<longrightarrow> (\<exists>r. xy2r x y = Inr r \<and> length r = 2 * length x))"
proof (cases "length x = length y")
  case True
  then show ?thesis
    by (simp add: xy2r_interleave length_interleave)
next
  case False
  then show ?thesis by (simp add: xy2r_def)
qed

theorem xy2r_raises_iff_lengths_differ_witness:
  "(\<exists>msg. xy2r [1] [] = Inl (ValueError msg)) \<and> (\<forall>r. xy2r [1] [] \<noteq> Inr r) \<and>
   (\<exists>r. xy2r [1] [2] = Inr r \<and> length r = 2 * length [1 :: real])"
proof -
  have a: "length [1 :: real] \<noteq> length ([] :: real list)" by simp
  have b: "length [1 :: real] = length [2 :: real]" by simp
  show ?thesis
    using xy2r_raises_iff_lengths_differ [of "[1]" "[]"]
          xy2r_raises_iff_lengths_differ [of "[1]" "[2]"] a b
    by blast
qed

section \<open>Properties of \<^verbatim>\<open>perturb_and_solve\<close>\<close>

lemma length_thermal_kick_x: "length (thermal_kick_x self x y T) = length x"
  by (simp add: thermal_kick_x_def RS_ddVdx_def)

lemma np_binop_same_length:
  "length a = length b \<Longrightarrow> np_binop f a b = Inr (map2 f a b)"
  by (simp add: np_binop_def)

text \<open>
  What one iteration does to the variables of the loop: it never assigns
  \<^verbatim>\<open>electron_initial_positions\<close>, and it assigns \<^verbatim>\<open>best_result\<close> only a converged
  result of the minimizer of strictly lower energy.
\<close>

lemma body_frame:
  assumes "perturb_and_solve_body self minimize cf T s = Inr s'"
  shows "electron_initial_positions s' = electron_initial_positions s \<and>
         (best_result s' = best_result s \<or>
          (\<exists>p. best_result s' = minimize cf p) \<and> res_status (best_result s') = 0 \<and>
           res_fun (best_result s') < res_fun (best_result s))"
  using assms
  by (auto simp: perturb_and_solve_body_def Let_def split_def split: sum.splits if_splits)

text \<open>On a position vector of even length an iteration raises nothing.\<close>

lemma body_total:
  assumes "even (length (electron_initial_positions s))"
  shows "\<exists>s'. perturb_and_solve_body self minimize cf T s = Inr s'"
proof -
  obtain xi yi where xy: "r2xy (electron_initial_positions s) = (xi, yi)"
    by (cases "r2xy (electron_initial_positions s)")
  have len: "length xi = length yi"
    using r2xy_lengths [OF assms] xy by simp
  let ?kick = "thermal_kick_x self xi yi T"
  let ?z1 = "fst (randn (rng_state s) (length xi))"
  let ?z2 = "fst (randn (snd (randn (rng_state s) (length xi))) (length yi))"
  let ?xi' = "map2 (+) xi (map2 (*) ?kick ?z1)"
  let ?yi' = "map2 (+) yi (map2 (*) ?kick ?z2)"
  have "length ?xi' = length ?yi'"
    using len by (simp add: length_thermal_kick_x randn_def)
  from xy2r_interleave [OF this] obtain r where r: "xy2r ?xi' ?yi' = Inr r"
    by blast
  show ?thesis
    using r len
    by (simp add: perturb_and_solve_body_def xy Let_def split_def np_binop_same_length
        length_thermal_kick_x randn_def)
qed

lemma loop_invariant:
  assumes "perturb_and_solve_loop self minimize cf T k s = Inr s'"
  shows "electron_initial_positions s' = electron_initial_positions s \<and>
         res_fun (best_result s') \<le> res_fun (best_result s) \<and>
         (best_result s' = best_result s \<or>
          res_status (best_result s') = 0 \<and> res_fun (best_result s') < res_fun (best_result s))"
  using assms
proof (induction k arbitrary: s)
  case 0
  then show ?case by simp
next
  case (Suc k)
  then obtain s1 where b: "perturb_and_solve_body self minimize cf T s = Inr s1"
    and l: "perturb_and_solve_loop self minimize cf T k s1 = Inr s'"
    by (auto split: sum.splits)
  from body_frame [OF b] Suc.IH [OF l] show ?case by auto
qed

lemma loop_total:
  assumes "even (length (electron_initial_positions s))"
  shows "\<exists>s'. perturb_and_solve_loop self minimize cf T k s = Inr s'"
  using assms
proof (induction k arbitrary: s)
  case 0
  then show ?case by simp
next
  case (Suc k)
  from body_total [OF Suc.prems] obtain s1
    where b: "perturb_and_solve_body self minimize cf T s = Inr s1" by blast
  with body_frame [OF b] Suc.prems have "even (length (electron_initial_positions s1))" by simp
  from Suc.IH [OF this] b show ?case by simp
qed

lemma loop_never_converged:
  assumes "perturb_and_solve_loop self minimize cf T k s = Inr s'"
    and "\<forall>p. res_status (minimize cf p) \<noteq> 0"
  shows "best_result s' = best_result s"
  using assms
proof (induction k arbitrary: s)
  case 0
  then show ?case by simp
next
  case (Suc k)
  then obtain s1 where b: "perturb_and_solve_body self minimize cf T s = Inr s1"
    and l: "perturb_and_solve_loop self minimize cf T k s1 = Inr s'"
    by (auto split: sum.splits)
  from body_frame [OF b] Suc.prems(2) have "best_result s1 = best_result s" by auto
  with Suc.IH [OF l Suc.prems(2)] show ?case by simp
qed

text \<open>The concrete inputs, evaluated: one iteration at temperature 0 from the origin.\<close>

lemma example_body:
  "electron_initial_positions s = [0, 0] \<Longrightarrow>
   perturb_and_solve_body example_solver example_minimize cf 0 s =
     Inr (if 5 < res_fun (best_result s)
          then s\<lparr>rng_state := (\<lambda>i. rng_state s (i + 2)),
                 best_result := \<lparr>res_x = [1, 1], res_fun = 5, res_status = 0\<rparr>,
                 printed := printed s @ [New_minimum_found]\<rparr>
          else s\<lparr>rng_state := (\<lambda>i. rng_state s (i + 2))\<rparr>)"
  by (simp add: perturb_and_solve_body_def r2xy_def randn_def thermal_kick_x_def RS_ddVdx_def
      example_solver_def np_binop_def xy2r_def assign_step2_from1_def example_minimize_def
      Let_def numeral_2_eq_2)

lemma example_one_trial:
  "perturb_and_solve_loop example_solver example_minimize cf 0 1
     (perturb_and_solve_init example_rng example_reference)
   = Inr \<lparr>electron_initial_positions = [0, 0],
          best_result = \<lparr>res_x = [1, 1], res_fun = 5, res_status = 0\<rparr>,
          rng_state = example_rng, printed = [New_minimum_found]\<rparr>"
  by (simp add: example_body perturb_and_solve_init_def example_reference_def example_rng_def)

lemma example_two_trials:
  "perturb_and_solve example_solver example_minimize example_rng cf 2 0 example_reference
   = Inr \<lparr>res_x = [1, 1], res_fun = 5, res_status = 0\<rparr>"
  by (simp add: perturb_and_solve_def numeral_2_eq_2 example_body perturb_and_solve_init_def
      example_reference_def)

text \<open>
  One iteration on a position vector of even length, written out: the position the
  minimizer is called on, and the state after the iteration.
\<close>

lemma body_on_even:
  assumes ev: "even (length (electron_initial_positions s))"
    and xy: "r2xy (electron_initial_positions s) = (xi, yi)"
  shows "\<exists>p. xy2r (map2 (+) xi (map2 (*) (thermal_kick_x self xi yi T)
                                  (map (rng_state s) [0..<length xi])))
                 (map2 (+) yi (map2 (*) (thermal_kick_x self xi yi T)
                                  (map (\<lambda>i. rng_state s (i + length xi)) [0..<length yi]))) = Inr p \<and>
             perturb_and_solve_body self minimize cf T s =
               Inr (let res = minimize cf p;
                        s = s\<lparr>rng_state := (\<lambda>i. rng_state s (i + length xi + length yi))\<rparr>
                    in if res_status res = 0 \<and> res_fun res < res_fun (best_result s) then
                         s\<lparr>best_result := res, printed := printed s @ [New_minimum_found]\<rparr>
                       else if res_status res = 0 \<and> res_fun res > res_fun (best_result s) then s
                       else if res_status res \<noteq> 0 \<and> res_fun res < res_fun (best_result s) then
                         s\<lparr>printed := printed s @ [Lower_state_not_converged]\<rparr>
                       else if res_status res \<noteq> 0 \<and> res_fun res > res_fun (best_result s) then
                         s\<lparr>printed := printed s @ [Not_converged_not_lowest]\<rparr>
                       else s)"
proof -
  have len: "length xi = length yi"
    using r2xy_lengths [OF ev] xy by simp
  let ?kick = "thermal_kick_x self xi yi T"
  let ?z1 = "map (rng_state s) [0..<length xi]"
  let ?z2 = "map (\<lambda>i. rng_state s (i + length xi)) [0..<length yi]"
  let ?xi' = "map2 (+) xi (map2 (*) ?kick ?z1)"
  let ?yi' = "map2 (+) yi (map2 (*) ?kick ?z2)"
  have "length ?xi' = length ?yi'"
    using len by (simp add: length_thermal_kick_x)
  from xy2r_interleave [OF this] obtain p where p: "xy2r ?xi' ?yi' = Inr p"
    by blast
  have "perturb_and_solve_body self minimize cf T s =
               Inr (let res = minimize cf p;
                        s = s\<lparr>rng_state := (\<lambda>i. rng_state s (i + length xi + length yi))\<rparr>
                    in if res_status res = 0 \<and> res_fun res < res_fun (best_result s) then
                         s\<lparr>best_result := res, printed := printed s @ [New_minimum_found]\<rparr>
                       else if res_status res = 0 \<and> res_fun res > res_fun (best_result s) then s
                       else if res_status res \<noteq> 0 \<and> res_fun res < res_fun (best_result s) then
                         s\<lparr>printed := printed s @ [Lower_state_not_converged]\<rparr>
                       else if res_status res \<noteq> 0 \<and> res_fun res > res_fun (best_result s) then
                         s\<lparr>printed := printed s @ [Not_converged_not_lowest]\<rparr>
                       else s)"
    using p len
    by (simp add: perturb_and_solve_body_def xy Let_def split_def np_binop_same_length
        length_thermal_kick_x randn_def add.assoc)
  with p show ?thesis by blast
qed

text \<open>
  Claim C2, as stated: in every trial after the first the position that is perturbed
  is the position of the best result retained so far.  It fails on the concrete
  inputs.  After the first trial the best result sits at \<open>[1, 1]\<close>, while the
  position the second trial decodes and perturbs, \<^verbatim>\<open>electron_initial_positions\<close>,
  is still the starting position \<open>[0, 0]\<close>.  The difference shows in the result: two
  trials at temperature 0 return the energy 5, although the minimizer started from
  the best position returns 4.
\<close>

theorem perturbs_best_position_counterexample:
  "perturb_and_solve_loop example_solver example_minimize (RS_Vtotal example_solver) 0 1
     (perturb_and_solve_init example_rng example_reference)
   = Inr \<lparr>electron_initial_positions = [0, 0],
          best_result = \<lparr>res_x = [1, 1], res_fun = 5, res_status = 0\<rparr>,
          rng_state = example_rng, printed = [New_minimum_found]\<rparr> \<and>
   perturb_and_solve example_solver example_minimize example_rng (RS_Vtotal example_solver) 2 0
     example_reference
   = Inr \<lparr>res_x = [1, 1], res_fun = 5, res_status = 0\<rparr> \<and>
   res_fun (example_minimize (RS_Vtotal example_solver) [1, 1]) = 4"
proof (intro conjI)
  show "res_fun (example_minimize (RS_Vtotal example_solver) [1, 1]) = 4"
    by (simp add: example_minimize_def)
qed (rule example_one_trial example_two_trials)+

text \<open>
  Claim C2, amended.  In every trial, the first and all later ones, the position that
  is decoded, perturbed and handed to the minimizer is the position of the starting
  solution \<^verbatim>\<open>solution_data_reference['x']\<close>, whatever result has been retained as the
  best.  For a starting position of even length, decoded into \<open>xi\<close> and \<open>yi\<close>, and the
  state \<open>s\<close> of the loop after any number of trials: the next trial returns; the
  minimizer is called on the encoding \<open>p\<close> of \<open>xi\<close> and \<open>yi\<close> displaced by the thermal
  kick at \<open>xi\<close>, \<open>yi\<close> times the next samples of the generator; the best result after
  the trial is the result of that call if it converged with an energy strictly
  below the best one, and the best result as it was otherwise; and
  \<^verbatim>\<open>electron_initial_positions\<close> is the starting position before and after the trial.
\<close>

theorem every_trial_perturbs_starting_solution:
  assumes "even (length (res_x solution_data_reference))"
    and "r2xy (res_x solution_data_reference) = (xi, yi)"
    and "perturb_and_solve_loop self minimize cost_function T k
           (perturb_and_solve_init g solution_data_reference) = Inr s"
  shows "\<exists>p s'.
     xy2r (map2 (+) xi (map2 (*) (thermal_kick_x self xi yi T)
                          (map (rng_state s) [0..<length xi])))
          (map2 (+) yi (map2 (*) (thermal_kick_x self xi yi T)
                          (map (\<lambda>i. rng_state s (i + length xi)) [0..<length yi]))) = Inr p \<and>
     perturb_and_solve_body self minimize cost_function T s = Inr s' \<and>
     best_result s' =
       (if res_status (minimize cost_function p) = 0 \<and>
           res_fun (minimize cost_function p) < res_fun (best_result s)
        then minimize cost_function p else best_result s) \<and>
     electron_initial_positions s = res_x solution_data_reference \<and>
     electron_initial_positions s' = res_x solution_data_reference"
proof -
  have e: "electron_initial_positions s = res_x solution_data_reference"
    using loop_invariant [OF assms(3)] by (simp add: perturb_and_solve_init_def)
  have ev: "even (length (electron_initial_positions s))" using assms(1) e by simp
  have xy: "r2xy (electron_initial_positions s) = (xi, yi)" using assms(2) e by simp
  from body_on_even [OF ev xy, of self T minimize cost_function]
  obtain p s' where p: "xy2r (map2 (+) xi (map2 (*) (thermal_kick_x self xi yi T)
                          (map (rng_state s) [0..<length xi])))
          (map2 (+) yi (map2 (*) (thermal_kick_x self xi yi T)
                          (map (\<lambda>i. rng_state s (i + length xi)) [0..<length yi]))) = Inr p"
    and b: "perturb_and_solve_body self minimize cost_function T s = Inr s'"
    and s': "s' = (let res = minimize cost_function p;
                        s = s\<lparr>rng_state := (\<lambda>i. rng_state s (i + length xi + length yi))\<rparr>
                    in if res_status res = 0 \<and> res_fun res < res_fun (best_result s) then
                         s\<lparr>best_result := res, printed := printed s @ [New_minimum_found]\<rparr>
                       else if res_status res = 0 \<and> res_fun res > res_fun (best_result s) then s
                       else if res_status res \<noteq> 0 \<and> res_fun res < res_fun (best_result s) then
                         s\<lparr>printed := printed s @ [Lower_state_not_converged]\<rparr>
                       else if res_status res \<noteq> 0 \<and> res_fun res > res_fun (best_result s) then
                         s\<lparr>printed := printed s @ [Not_converged_not_lowest]\<rparr>
                       else s)"
    by blast
  have best: "best_result s' =
       (if res_status (minimize cost_function p) = 0 \<and>
           res_fun (minimize cost_function p) < res_fun (best_result s)
        then minimize cost_function p else best_result s)"
    by (simp add: s' Let_def)
  have e': "electron_initial_positions s' = res_x solution_data_reference"
    using body_frame [OF b] e by simp
  from p b best e e' show ?thesis by blast
qed

theorem every_trial_perturbs_starting_solution_witness:
  "even (length (res_x example_reference)) \<and>
   r2xy (res_x example_reference) = ([0], [0]) \<and>
   perturb_and_solve_loop example_solver example_minimize (RS_Vtotal example_solver) 0 1
     (perturb_and_solve_init example_rng example_reference)
   = Inr \<lparr>electron_initial_positions = [0, 0],
          best_result = \<lparr>res_x = [1, 1], res_fun = 5, res_status = 0\<rparr>,
          rng_state = example_rng, printed = [New_minimum_found]\<rparr> \<and>
   (\<exists>s'. perturb_and_solve_body example_solver example_minimize (RS_Vtotal example_solver) 0
           \<lparr>electron_initial_positions = [0, 0],
            best_result = \<lparr>res_x = [1, 1], res_fun = 5, res_status = 0\<rparr>,
            rng_state = example_rng, printed = [New_minimum_found]\<rparr> = Inr s' \<and>
         best_result s' = \<lparr>res_x = [1, 1], res_fun = 5, res_status = 0\<rparr> \<and>
         res_fun (example_minimize (RS_Vtotal example_solver) [0, 0]) = 5 \<and>
         res_fun (example_minimize (RS_Vtotal example_solver) (res_x (best_result s'))) = 4)"
proof -
  let ?s1 = "\<lparr>electron_initial_positions = [0, 0],
          best_result = \<lparr>res_x = [1, 1], res_fun = 5, res_status = 0\<rparr>,
          rng_state = example_rng, printed = [New_minimum_found]\<rparr>"
  have e: "even (length (res_x example_reference))" by (simp add: example_reference_def)
  have xy: "r2xy (res_x example_reference) = ([0], [0])"
    by (simp add: example_reference_def r2xy_def)
  note l = example_one_trial [of "RS_Vtotal example_solver"]
  have p0: "xy2r (map2 (+) [0] (map2 (*) (thermal_kick_x example_solver [0] [0] 0)
                          (map (rng_state ?s1) [0..<length [0::real]])))
          (map2 (+) [0] (map2 (*) (thermal_kick_x example_solver [0] [0] 0)
                          (map (\<lambda>i. rng_state ?s1 (i + length [0::real])) [0..<length [0::real]])))
        = Inr [0, 0]"
    by (simp add: thermal_kick_x_def RS_ddVdx_def example_solver_def example_rng_def xy2r_def
        assign_step2_from1_def numeral_2_eq_2)
  from every_trial_perturbs_starting_solution [OF e xy l]
  obtain p s' where p: "xy2r (map2 (+) [0] (map2 (*) (thermal_kick_x example_solver [0] [0] 0)
                          (map (rng_state ?s1) [0..<length [0::real]])))
          (map2 (+) [0] (map2 (*) (thermal_kick_x example_solver [0] [0] 0)
                          (map (\<lambda>i. rng_state ?s1 (i + length [0::real])) [0..<length [0::real]])))
        = Inr p"
    and b: "perturb_and_solve_body example_solver example_minimize (RS_Vtotal example_solver) 0 ?s1
              = Inr s'"
    and best: "best_result s' =
       (if res_status (example_minimize (RS_Vtotal example_solver) p) = 0 \<and>
           res_fun (example_minimize (RS_Vtotal example_solver) p) < res_fun (best_result ?s1)
        then example_minimize (RS_Vtotal example_solver) p else best_result ?s1)"
    by blast
  from p p0 have pp: "p = [0, 0]" by simp
  have b1: "best_result s' = \<lparr>res_x = [1, 1], res_fun = 5, res_status = 0\<rparr>"
    using best by (simp add: pp example_minimize_def)
  have m0: "res_fun (example_minimize (RS_Vtotal example_solver) [0, 0]) = 5"
    by (simp add: example_minimize_def)
  have m1: "res_fun (example_minimize (RS_Vtotal example_solver) (res_x (best_result s'))) = 4"
    by (simp add: b1 example_minimize_def)
  from b b1 m0 m1 have "\<exists>s'. perturb_and_solve_body example_solver example_minimize
           (RS_Vtotal example_solver) 0 ?s1 = Inr s' \<and>
         best_result s' = \<lparr>res_x = [1, 1], res_fun = 5, res_status = 0\<rparr> \<and>
         res_fun (example_minimize (RS_Vtotal example_solver) [0, 0]) = 5 \<and>
         res_fun (example_minimize (RS_Vtotal example_solver) (res_x (best_result s'))) = 4"
    by blast
  with e xy l show ?thesis by (intro conjI)
qed

text \<open>
  Claim C3.  Whatever the trial count, the minimizer and the random samples: if
  \<^verbatim>\<open>perturb_and_solve\<close> returns, the energy of its result is at most the energy of
  the starting solution; the result is the starting solution itself or a converged
  result of strictly lower energy, hence converged when the starting solution is; and
  with a minimizer that never converges the starting solution is returned, however
  low the energies it reports.  On a starting position of even length the function
  does return.  In a single iteration the best result is kept, or replaced by a
  result of the minimizer that converged (status 0) with an energy strictly below the
  best one.
\<close>

theorem anneal_never_worse:
  "(\<forall>best. perturb_and_solve self minimize g cost_function N_perturbations T
             solution_data_reference = Inr best \<longrightarrow>
           res_fun best \<le> res_fun solution_data_reference \<and>
           (best = solution_data_reference \<or>
            res_status best = 0 \<and> res_fun best < res_fun solution_data_reference) \<and>
           (res_status solution_data_reference = 0 \<longrightarrow> res_status best = 0) \<and>
           ((\<forall>p. res_status (minimize cost_function p) \<noteq> 0) \<longrightarrow>
              best = solution_data_reference)) \<and>
   (even (length (res_x solution_data_reference)) \<longrightarrow>
      (\<exists>best. perturb_and_solve self minimize g cost_function N_perturbations T
                 solution_data_reference = Inr best)) \<and>
   (perturb_and_solve_body self minimize cost_function T s = Inr s' \<longrightarrow>
      best_result s' = best_result s \<or>
      (\<exists>p. best_result s' = minimize cost_function p) \<and> res_status (best_result s') = 0 \<and>
        res_fun (best_result s') < res_fun (best_result s))"
proof (intro conjI impI allI)
  let ?s0 = "perturb_and_solve_init g solution_data_reference"
  have b0: "best_result ?s0 = solution_data_reference"
    by (simp add: perturb_and_solve_init_def)
  fix best
  assume "perturb_and_solve self minimize g cost_function N_perturbations T
             solution_data_reference = Inr best"
  then obtain sN where
    l: "perturb_and_solve_loop self minimize cost_function T (nat N_perturbations) ?s0 = Inr sN"
    and best: "best = best_result sN"
    by (auto simp: perturb_and_solve_def split: sum.splits)
  from loop_invariant [OF l] b0 best
  show "res_fun best \<le> res_fun solution_data_reference"
    and disj: "best = solution_data_reference \<or>
      res_status best = 0 \<and> res_fun best < res_fun solution_data_reference"
    by simp_all
  {
    assume "res_status solution_data_reference = 0"
    with disj show "res_status best = 0" by auto
  }
  {
    assume "\<forall>p. res_status (minimize cost_function p) \<noteq> 0"
    from loop_never_converged [OF l this] b0 best
    show "best = solution_data_reference" by simp
  }
next
  let ?s0 = "perturb_and_solve_init g solution_data_reference"
  assume "even (length (res_x solution_data_reference))"
  then have "even (length (electron_initial_positions ?s0))"
    by (simp add: perturb_and_solve_init_def)
  from loop_total [OF this] obtain sN where
    "perturb_and_solve_loop self minimize cost_function T (nat N_perturbations) ?s0 = Inr sN"
    by blast
  then show "\<exists>best. perturb_and_solve self minimize g cost_function N_perturbations T
                 solution_data_reference = Inr best"
    by (simp add: perturb_and_solve_def)
next
  assume "perturb_and_solve_body self minimize cost_function T s = Inr s'"
  from body_frame [OF this]
  show "best_result s' = best_result s \<or>
      (\<exists>p. best_result s' = minimize cost_function p) \<and> res_status (best_result s') = 0 \<and>
        res_fun (best_result s') < res_fun (best_result s)"
    by simp
qed

theorem anneal_never_worse_witness:
  "perturb_and_solve example_solver example_minimize example_rng (RS_Vtotal example_solver) 2 0
     example_reference
   = Inr \<lparr>res_x = [1, 1], res_fun = 5, res_status = 0\<rparr> \<and>
   res_fun \<lparr>res_x = [1, 1], res_fun = 5, res_status = 0\<rparr> \<le> res_fun example_reference \<and>
   res_status \<lparr>res_x = [1, 1], res_fun = 5, res_status = 0\<rparr> = 0 \<and>
   even (length (res_x example_reference))"
proof -
  note r = example_two_trials [of "RS_Vtotal example_solver"]
  have c: "res_status example_reference = 0" and e: "even (length (res_x example_reference))"
    by (simp_all add: example_reference_def)
  from anneal_never_worse [of example_solver example_minimize example_rng
      "RS_Vtotal example_solver" 2 0 example_reference] r c e
  show ?thesis by simp
qed

section \<open>Closed forms of the pair interaction\<close>

lemma length_tab [simp]: "length (tab n m g) = n"
  by (simp add: tab_def)

lemma nth_tab [simp]: "a < n \<Longrightarrow> tab n m g ! a = map (g a) [0..<m]"
  by (simp add: tab_def)

lemma nth_nth_tab: "a < n \<Longrightarrow> b < m \<Longrightarrow> tab n m g ! a ! b = g a b"
  by simp

lemma tab_cong: "(\<And>a b. a < n \<Longrightarrow> b < m \<Longrightarrow> g a b = h a b) \<Longrightarrow> tab n m g = tab n m h"
  by (simp add: tab_def)

lemma ncols_tab: "ncols (tab n n g) = n"
  by (cases n) (simp_all add: tab_def ncols_def upt_conv_Cons del: upt_Suc)

lemma meshgrid_tab:
  "meshgrid xi yi = (tab (length yi) (length xi) (\<lambda>a b. xi ! b),
                     tab (length yi) (length xi) (\<lambda>a b. yi ! a))"
proof -
  have "map (\<lambda>y. xi) yi = tab (length yi) (length xi) (\<lambda>a b. xi ! b)"
    by (rule nth_equalityI) (simp_all add: tab_def map_nth)
  moreover have "map (\<lambda>y. map (\<lambda>x. y) xi) yi = tab (length yi) (length xi) (\<lambda>a b. yi ! a)"
    by (rule nth_equalityI) (simp_all add: tab_def map_replicate_const)
  ultimately show ?thesis by (simp add: meshgrid_def)
qed

lemma np_T_tab: "np_T (tab n n g) = tab n n (\<lambda>a b. g b a)"
  by (simp add: np_T_def ncols_tab) (simp add: tab_def)

lemma mat_map_tab: "mat_map f (tab n m g) = tab n m (\<lambda>a b. f (g a b))"
  by (simp add: mat_map_def tab_def)

lemma mat_map2_tab: "mat_map2 f (tab n m g) (tab n m h) = tab n m (\<lambda>a b. f (g a b) (h a b))"
  by (rule nth_equalityI) (auto simp: mat_map2_def tab_def intro: nth_equalityI)

lemma fill_diagonal_tab:
  "fill_diagonal (tab n n g) v = tab n n (\<lambda>a b. if a = b then v else g a b)"
  by (rule nth_equalityI) (auto simp: fill_diagonal_def tab_def intro!: nth_equalityI)

lemma sum_list_upt: "sum_list (map f [0..<n]) = (\<Sum>i<n. f i)"
  by (simp add: interv_sum_list_conv_sum_set_nat lessThan_atLeast0)

lemma np_sum_tab: "np_sum (tab n m g) = (\<Sum>a<n. \<Sum>b<m. g a b)"
  by (simp add: np_sum_def tab_def sum_list_upt comp_def)

lemma np_sum_axis0_tab: "np_sum_axis0 (tab n n g) = map (\<lambda>b. \<Sum>a<n. g a b) [0..<n]"
proof -
  have "\<And>b. b < n \<Longrightarrow> sum_list (map (\<lambda>row. row ! b) (tab n n g)) = (\<Sum>a<n. g a b)"
    by (simp add: tab_def comp_def sum_list_upt [symmetric] cong: map_cong)
  then show ?thesis by (simp add: np_sum_axis0_def ncols_tab)
qed

lemma sqrt_sq_sum_tab:
  "sqrt_sq_sum (tab n m f) (tab n m g) (tab n m h) (tab n m k)
     = tab n m (\<lambda>a b. sqrt ((f a b - g a b)\<^sup>2 + (h a b - k a b)\<^sup>2))"
  by (simp add: sqrt_sq_sum_def mat_map_tab mat_map2_tab)

lemma EP_Rij_tab:
  "length xi = length yi \<Longrightarrow>
   EP_Rij xi yi eps = tab (length xi) (length xi)
      (\<lambda>a b. if a = b then eps else sqrt ((xi ! b - xi ! a)\<^sup>2 + (yi ! a - yi ! b)\<^sup>2))"
  by (simp add: EP_Rij_def meshgrid_tab np_T_tab sqrt_sq_sum_tab fill_diagonal_tab)

lemma EP_Vee_tab:
  "length xi = length yi \<Longrightarrow>
   EP_Vee xi yi eps = tab (length xi) (length xi)
      (\<lambda>a b. 1 / 2 * qe\<^sup>2 / (4 * pi * eps0) * 1 /
          (if a = b then eps else sqrt ((xi ! b - xi ! a)\<^sup>2 + (yi ! a - yi ! b)\<^sup>2)))"
  by (simp add: EP_Vee_def EP_Rij_tab mat_map_tab)

lemma EP_pair_energy:
  "length xi = length yi \<Longrightarrow>
   np_sum (fill_diagonal (EP_Vee xi yi eps) 0) =
     (\<Sum>a<length xi. \<Sum>b<length xi. if a = b then 0 else
         1 / 2 * qe\<^sup>2 / (4 * pi * eps0) * 1 / sqrt ((xi ! b - xi ! a)\<^sup>2 + (yi ! a - yi ! b)\<^sup>2))"
  by (simp add: EP_Vee_tab fill_diagonal_tab np_sum_tab if_distrib cong: if_cong)

lemma EP_grad_Vee_closed:
  assumes "length xi = length yi"
  shows "EP_grad_Vee xi yi eps =
     concat (map2 (\<lambda>gx gy. [gx, gy])
       (map (\<lambda>b. \<Sum>a<length xi. if a = b then 0 else
                 - 1 * qe\<^sup>2 / (4 * pi * eps0) * (xi ! b - xi ! a)
                   / (sqrt ((xi ! b - xi ! a)\<^sup>2 + (yi ! a - yi ! b)\<^sup>2)) ^ 3) [0..<length xi])
       (map (\<lambda>b. \<Sum>a<length xi. if a = b then 0 else
                 1 * qe\<^sup>2 / (4 * pi * eps0) * (yi ! a - yi ! b)
                   / (sqrt ((xi ! b - xi ! a)\<^sup>2 + (yi ! a - yi ! b)\<^sup>2)) ^ 3) [0..<length xi]))"
proof -
  let ?N = "length xi"
  let ?gx = "(map (\<lambda>b. \<Sum>a<length xi. if a = b then 0 else
                 - 1 * qe\<^sup>2 / (4 * pi * eps0) * (xi ! b - xi ! a)
                   / (sqrt ((xi ! b - xi ! a)\<^sup>2 + (yi ! a - yi ! b)\<^sup>2)) ^ 3) [0..<length xi])"
  let ?gy = "(map (\<lambda>b. \<Sum>a<length xi. if a = b then 0 else
                 1 * qe\<^sup>2 / (4 * pi * eps0) * (yi ! a - yi ! b)
                   / (sqrt ((xi ! b - xi ! a)\<^sup>2 + (yi ! a - yi ! b)\<^sup>2)) ^ 3) [0..<length xi])"
  have "EP_grad_Vee xi yi eps = assign_step2_from1 (assign_step2 (replicate (2 * length ?gx) 0) ?gx) ?gy"
    using assms
    by (simp add: EP_grad_Vee_def meshgrid_tab np_T_tab EP_Rij_tab mat_map2_tab fill_diagonal_tab
        np_sum_axis0_tab if_distrib cong: if_cong)
  also have "\<dots> = concat (map2 (\<lambda>gx gy. [gx, gy]) ?gx ?gy)"
    by (rule assign_both_interleaves) simp
  finally show ?thesis .
qed

lemma r2xy_two: "r2xy [x0, y0, x1, y1] = ([x0, x1], [y0, y1])"
  by (simp add: r2xy_def)

lemma sum_lessThan_2: "(\<Sum>a<(2::nat). f a) = f 0 + (f 1 :: real)"
  by (simp add: numeral_2_eq_2)

lemma pair_on_x_axis_energy:
  assumes "0 < d"
  shows "np_sum (fill_diagonal (EP_Vee [0, d] [0, 0] eps) 0) = qe\<^sup>2 / (4 * pi * eps0) / d"
  using assms by (simp add: EP_pair_energy sum_lessThan_2)

lemma pair_on_x_axis_gradient:
  assumes "0 < d"
  shows "EP_grad_Vee [0, d] [0, 0] eps
           = [qe\<^sup>2 / (4 * pi * eps0) / d\<^sup>2, 0, - (qe\<^sup>2 / (4 * pi * eps0) / d\<^sup>2), 0]"
proof -
  have "d ^ 3 = d * d\<^sup>2" by (simp add: power3_eq_cube power2_eq_square)
  then show ?thesis
    using assms by (simp add: EP_grad_Vee_closed sum_lessThan_2 numeral_2_eq_2)
qed

lemma pair_on_x_axis_Vtotal:
  assumes "0 < d"
  shows "EP_Vtotal zero_field [0, 0, d, 0] = 1 / (4 * pi * eps0) * qe / d"
proof -
  have q: "qe \<noteq> 0" by (simp add: qe_def)
  show ?thesis
    using q
    by (simp add: EP_Vtotal_def r2xy_two EP_Velectrostatic_def EP_V_def ev_def
        zero_field_def pair_on_x_axis_energy [OF assms] power2_eq_square)
qed

lemma pair_on_x_axis_grad_total:
  assumes "0 < d"
  shows "EP_grad_total zero_field [0, 0, d, 0]
     = [1 / (4 * pi * eps0) * qe / d\<^sup>2, 0, - (1 / (4 * pi * eps0) * qe / d\<^sup>2), 0]"
proof -
  have q: "qe \<noteq> 0" by (simp add: qe_def)
  show ?thesis
    using q
    by (simp add: EP_grad_total_def r2xy_two pair_on_x_axis_gradient [OF assms]
        EP_dVdx_def EP_dVdy_def ev_def
        zero_field_def assign_step2_from1_def power2_eq_square numeral_eq_Suc)
qed

lemma two_charges_energy:
  "EP_Vtotal zero_field two_charges = 1 / (4 * pi * eps0) * qe / (1 / 10 ^ 6)"
  unfolding two_charges_def by (rule pair_on_x_axis_Vtotal) simp

lemma two_charges_gradient:
  "EP_grad_total zero_field two_charges
     = [1 / (4 * pi * eps0) * qe / (1 / 10 ^ 6)\<^sup>2, 0, - (1 / (4 * pi * eps0) * qe / (1 / 10 ^ 6)\<^sup>2), 0]"
  unfolding two_charges_def by (rule pair_on_x_axis_grad_total) simp

text \<open>
  Claim C5, as stated: the energy of the two charges in zero field is
  \<open>k\<cdot>qe/(2\<cdot>1e-6)\<close> with \<open>k = 1/(4\<pi>\<cdot>eps0)\<close>.  It is not: the matrix of \<^verbatim>\<open>Vee\<close>
  carries the factor 1/2 in both entries of the pair, so their sum is the full pair
  energy.
\<close>

theorem two_charges_energy_counterexample:
  "EP_Vtotal zero_field two_charges \<noteq> 1 / (4 * pi * eps0) * qe / (2 * (1 / 10 ^ 6))"
  by (simp add: two_charges_energy qe_def eps0_def)

text \<open>
  Claim C5, amended.  For the two charges at \<open>(0, 0)\<close> and \<open>(1e-6, 0)\<close> in zero field,
  \<^verbatim>\<open>Vtotal\<close> is \<open>k\<cdot>qe/1e-6\<close>, and \<^verbatim>\<open>grad_total\<close> is \<open>[g, 0, -g, 0]\<close> with
  \<open>g = k\<cdot>qe/(1e-6)\<^sup>2 > 0\<close>: the x-components have equal magnitude and opposite sign,
  positive at the charge at \<open>x = 0\<close> and negative at the charge at \<open>x = 1e-6\<close> (so
  a step against the gradient moves the charges apart), and the y-components are
  zero.
\<close>

theorem two_charges_energy_and_gradient:
  "EP_Vtotal zero_field two_charges = 1 / (4 * pi * eps0) * qe / (1 / 10 ^ 6) \<and>
   EP_grad_total zero_field two_charges
     = [1 / (4 * pi * eps0) * qe / (1 / 10 ^ 6)\<^sup>2, 0,
        - (1 / (4 * pi * eps0) * qe / (1 / 10 ^ 6)\<^sup>2), 0] \<and>
   0 < 1 / (4 * pi * eps0) * qe / (1 / 10 ^ 6)\<^sup>2"
proof (intro conjI)
  show "0 < 1 / (4 * pi * eps0) * qe / (1 / 10 ^ 6)\<^sup>2"
    by (simp add: qe_def eps0_def)
qed (rule two_charges_energy two_charges_gradient)+

lemma EP_Vee_off_diagonal_sum:
  assumes "length xi = length yi"
  shows "(\<Sum>a<length xi. \<Sum>b<length xi. if a = b then 0 else EP_Vee xi yi eps ! a ! b) =
     (\<Sum>a<length xi. \<Sum>b<length xi. if a = b then 0 else
         1 / 2 * qe\<^sup>2 / (4 * pi * eps0) * 1 / sqrt ((xi ! b - xi ! a)\<^sup>2 + (yi ! a - yi ! b)\<^sup>2))"
  by (intro sum.cong refl) (simp add: EP_Vee_tab [OF assms])

lemma sum_fp_Some: "sum_fp (map Some xs) = Some (sum_list xs)"
  by (induction xs) simp_all

lemma np_sum_fp_Some: "np_sum_fp (mat_map Some M) = Some (np_sum M)"
proof -
  have "map sum_fp (map (map Some) M) = map Some (map sum_list M)"
    by (induction M) (simp_all add: sum_fp_Some)
  then have "sum_fp (map sum_fp (map (map Some) M)) = Some (sum_list (map sum_list M))"
    by (simp only: sum_fp_Some)
  then show ?thesis by (simp only: np_sum_fp_def mat_map_def np_sum_def)
qed

lemma EP_Vee_fp_tab:
  "length xi = length yi \<Longrightarrow>
   EP_Vee_fp xi yi eps = tab (length xi) (length xi)
      (\<lambda>a b. np_divide (1 / 2 * qe\<^sup>2 / (4 * pi * eps0) * 1)
          (if a = b then eps else sqrt ((xi ! b - xi ! a)\<^sup>2 + (yi ! a - yi ! b)\<^sup>2)))"
  by (simp add: EP_Vee_fp_def EP_Rij_tab mat_map_tab)

lemma EP_gradx_matrix_tab:
  "length xi = length yi \<Longrightarrow>
   EP_gradx_matrix xi yi eps = tab (length xi) (length xi)
      (\<lambda>a b. np_divide (- 1 * qe\<^sup>2 / (4 * pi * eps0) * (xi ! b - xi ! a))
          ((if a = b then eps else sqrt ((xi ! b - xi ! a)\<^sup>2 + (yi ! a - yi ! b)\<^sup>2)) ^ 3))"
  by (simp add: EP_gradx_matrix_def meshgrid_tab np_T_tab EP_Rij_tab mat_map2_tab)

lemma EP_grady_matrix_tab:
  "length xi = length yi \<Longrightarrow>
   EP_grady_matrix xi yi eps = tab (length xi) (length xi)
      (\<lambda>a b. np_divide (1 * qe\<^sup>2 / (4 * pi * eps0) * (yi ! a - yi ! b))
          ((if a = b then eps else sqrt ((xi ! b - xi ! a)\<^sup>2 + (yi ! a - yi ! b)\<^sup>2)) ^ 3))"
  by (simp add: EP_grady_matrix_def meshgrid_tab np_T_tab EP_Rij_tab mat_map2_tab)

lemma zeroed_Vee_fp:
  assumes "length xi = length yi"
  shows "fill_diagonal (EP_Vee_fp xi yi eps) (Some 0) = tab (length xi) (length xi)
      (\<lambda>a b. if a = b then Some 0 else
          np_divide (1 / 2 * qe\<^sup>2 / (4 * pi * eps0) * 1)
            (sqrt ((xi ! b - xi ! a)\<^sup>2 + (yi ! a - yi ! b)\<^sup>2)))"
  unfolding EP_Vee_fp_tab [OF assms] fill_diagonal_tab by (rule tab_cong) simp

lemma zeroed_gradx_matrix:
  assumes "length xi = length yi"
  shows "fill_diagonal (EP_gradx_matrix xi yi eps) (Some 0) = tab (length xi) (length xi)
      (\<lambda>a b. if a = b then Some 0 else
          np_divide (- 1 * qe\<^sup>2 / (4 * pi * eps0) * (xi ! b - xi ! a))
            ((sqrt ((xi ! b - xi ! a)\<^sup>2 + (yi ! a - yi ! b)\<^sup>2)) ^ 3))"
  unfolding EP_gradx_matrix_tab [OF assms] fill_diagonal_tab by (rule tab_cong) simp

lemma zeroed_grady_matrix:
  assumes "length xi = length yi"
  shows "fill_diagonal (EP_grady_matrix xi yi eps) (Some 0) = tab (length xi) (length xi)
      (\<lambda>a b. if a = b then Some 0 else
          np_divide (1 * qe\<^sup>2 / (4 * pi * eps0) * (yi ! a - yi ! b))
            ((sqrt ((xi ! b - xi ! a)\<^sup>2 + (yi ! a - yi ! b)\<^sup>2)) ^ 3))"
  unfolding EP_grady_matrix_tab [OF assms] fill_diagonal_tab by (rule tab_cong) simp

lemma EP_grad_Vee_fp_eps:
  assumes "length xi = length yi"
  shows "EP_grad_Vee_fp xi yi eps = EP_grad_Vee_fp xi yi eps'"
  by (simp only: EP_grad_Vee_fp_def Let_def zeroed_gradx_matrix [OF assms]
      zeroed_grady_matrix [OF assms])

lemma zeroed_Vee_fp_finite:
  assumes len: "length xi = length yi"
    and nz: "\<forall>a<length xi. \<forall>b<length xi. a \<noteq> b \<longrightarrow> EP_Rij xi yi eps ! a ! b \<noteq> 0"
  shows "fill_diagonal (EP_Vee_fp xi yi eps) (Some 0)
           = mat_map Some (fill_diagonal (EP_Vee xi yi eps) 0)"
  unfolding zeroed_Vee_fp [OF len] EP_Vee_tab [OF len] fill_diagonal_tab mat_map_tab
proof (rule tab_cong)
  fix a b assume ab: "a < length xi" "b < length xi"
  show "(if a = b then Some 0 else
          np_divide (1 / 2 * qe\<^sup>2 / (4 * pi * eps0) * 1)
            (sqrt ((xi ! b - xi ! a)\<^sup>2 + (yi ! a - yi ! b)\<^sup>2)))
      = Some (if a = b then 0 else 1 / 2 * qe\<^sup>2 / (4 * pi * eps0) * 1 /
          (if a = b then eps else sqrt ((xi ! b - xi ! a)\<^sup>2 + (yi ! a - yi ! b)\<^sup>2)))"
  proof (cases "a = b")
    case True
    then show ?thesis by simp
  next
    case False
    with nz ab have "EP_Rij xi yi eps ! a ! b \<noteq> 0" by blast
    with False ab have "sqrt ((xi ! b - xi ! a)\<^sup>2 + (yi ! a - yi ! b)\<^sup>2) \<noteq> 0"
      by (simp add: EP_Rij_tab [OF len])
    with False show ?thesis by (simp add: np_divide_def)
  qed
qed

lemma np_sum_axis0_fp_Some:
  "np_sum_axis0_fp (tab n n (\<lambda>a b. Some (g a b))) = map (\<lambda>b. Some (\<Sum>a<n. g a b)) [0..<n]"
proof -
  have "sum_fp (map (\<lambda>row. row ! b) (tab n n (\<lambda>a b. Some (g a b)))) = Some (\<Sum>a<n. g a b)"
    if "b < n" for b
  proof -
    have "map (\<lambda>row. row ! b) (tab n n (\<lambda>a b. Some (g a b))) = map Some (map (\<lambda>a. g a b) [0..<n])"
      using that by (simp add: tab_def comp_def cong: map_cong)
    then show ?thesis by (simp only: sum_fp_Some sum_list_upt)
  qed
  then show ?thesis by (simp add: np_sum_axis0_fp_def ncols_tab)
qed

lemma EP_grad_Vee_fp_finite:
  assumes len: "length xi = length yi"
    and nz: "\<forall>a<length xi. \<forall>b<length xi. a \<noteq> b \<longrightarrow> EP_Rij xi yi eps ! a ! b \<noteq> 0"
  shows "EP_grad_Vee_fp xi yi eps = map Some (EP_grad_Vee xi yi eps)"
proof -
  let ?N = "length xi"
  let ?R = "\<lambda>a b. sqrt ((xi ! b - xi ! a)\<^sup>2 + (yi ! a - yi ! b)\<^sup>2)"
  let ?gx = "\<lambda>a b. if a = b then 0 else - 1 * qe\<^sup>2 / (4 * pi * eps0) * (xi ! b - xi ! a) / (?R a b) ^ 3"
  let ?gy = "\<lambda>a b. if a = b then 0 else 1 * qe\<^sup>2 / (4 * pi * eps0) * (yi ! a - yi ! b) / (?R a b) ^ 3"
  have R: "?R a b \<noteq> 0" if "a < ?N" "b < ?N" "a \<noteq> b" for a b
  proof -
    from nz that have "EP_Rij xi yi eps ! a ! b \<noteq> 0" by blast
    with that show ?thesis by (simp add: EP_Rij_tab [OF len])
  qed
  have zx: "fill_diagonal (EP_gradx_matrix xi yi eps) (Some 0) = tab ?N ?N (\<lambda>a b. Some (?gx a b))"
    unfolding zeroed_gradx_matrix [OF len]
  proof (rule tab_cong)
    fix a b assume ab: "a < ?N" "b < ?N"
    show "(if a = b then Some 0 else
          np_divide (- 1 * qe\<^sup>2 / (4 * pi * eps0) * (xi ! b - xi ! a)) ((?R a b) ^ 3))
        = Some (?gx a b)"
    proof (cases "a = b")
      case True
      then show ?thesis by simp
    next
      case False
      from R [OF ab False] have "(?R a b) ^ 3 \<noteq> 0" by (rule power_not_zero)
      with False show ?thesis by (simp only: np_divide_def if_False)
    qed
  qed
  have zy: "fill_diagonal (EP_grady_matrix xi yi eps) (Some 0) = tab ?N ?N (\<lambda>a b. Some (?gy a b))"
    unfolding zeroed_grady_matrix [OF len]
  proof (rule tab_cong)
    fix a b assume ab: "a < ?N" "b < ?N"
    show "(if a = b then Some 0 else
          np_divide (1 * qe\<^sup>2 / (4 * pi * eps0) * (yi ! a - yi ! b)) ((?R a b) ^ 3))
        = Some (?gy a b)"
    proof (cases "a = b")
      case True
      then show ?thesis by simp
    next
      case False
      from R [OF ab False] have "(?R a b) ^ 3 \<noteq> 0" by (rule power_not_zero)
      with False show ?thesis by (simp only: np_divide_def if_False)
    qed
  qed
  let ?sx = "map (\<lambda>b. \<Sum>a<?N. ?gx a b) [0..<?N]"
  let ?sy = "map (\<lambda>b. \<Sum>a<?N. ?gy a b) [0..<?N]"
  have l: "length (map Some ?sx) = length (map Some ?sy)" by simp
  have "EP_grad_Vee_fp xi yi eps
          = assign_step2_from1 (assign_step2 (replicate (2 * length (map Some ?sx)) (Some 0))
              (map Some ?sx)) (map Some ?sy)"
    by (simp add: EP_grad_Vee_fp_def zx zy np_sum_axis0_fp_Some comp_def)
  also have "\<dots> = concat (map2 (\<lambda>u v. [u, v]) (map Some ?sx) (map Some ?sy))"
    by (rule assign_both_interleaves [OF l])
  also have "\<dots> = map Some (concat (map2 (\<lambda>u v. [u, v]) ?sx ?sy))"
    by (simp add: map_concat zip_map_map comp_def split_def)
  also have "concat (map2 (\<lambda>u v. [u, v]) ?sx ?sy) = EP_grad_Vee xi yi eps"
    by (simp only: EP_grad_Vee_closed [OF len])
  finally show ?thesis .
qed

text \<open>
  Claim C8.  For a position vector of even length, decoded into \<open>xi\<close> and \<open>yi\<close>: the
  pairwise contribution that \<^verbatim>\<open>Vtotal\<close> sums (the \<^verbatim>\<open>Vee\<close> matrix with its diagonal
  zeroed) is the sum of the off-diagonal entries of the \<^verbatim>\<open>Vee\<close> matrix, and that for
  any two placeholders \<open>eps\<close> and \<open>eps'\<close>; so the value of \<^verbatim>\<open>Vtotal\<close> is the field
  term plus the off-diagonal sum, whatever the placeholder, and the result of
  \<^verbatim>\<open>grad_Vee\<close> does not depend on \<open>eps\<close> either.  Every division by a distance, in
  \<^verbatim>\<open>Vee\<close> as in the two matrices of \<^verbatim>\<open>grad_Vee\<close>, has as its divisor the entry of
  the one distance matrix (cubed in \<^verbatim>\<open>grad_Vee\<close>), and that matrix has \<open>eps\<close> on its
  diagonal: a diagonal quotient is the constant over \<open>eps\<close> in \<^verbatim>\<open>Vee\<close> and zero over
  \<open>eps\<^sup>3\<close> in \<^verbatim>\<open>grad_Vee\<close>, finite for every \<open>eps\<close> that is not zero and not finite
  for \<open>eps = 0\<close>.  The zeroed sums do not depend on \<open>eps\<close> in the model with the
  zero divisor made visible either, where the zeroed sum and the result of
  \<^verbatim>\<open>grad_Vee\<close> are finite and agree with those over the reals as long as no two
  charges coincide.
\<close>

theorem pair_energy_sums_off_diagonal:
  assumes "even (length r)" and "r2xy r = (xi, yi)"
  shows "np_sum (fill_diagonal (EP_Vee xi yi eps) 0)
           = (\<Sum>a<length xi. \<Sum>b<length xi. if a = b then 0 else EP_Vee xi yi eps' ! a ! b) \<and>
         EP_Vtotal ip r
           = (EP_Velectrostatic ip xi yi +
              (\<Sum>a<length xi. \<Sum>b<length xi. if a = b then 0 else EP_Vee xi yi eps ! a ! b)) / qe \<and>
         (\<forall>a<length xi. EP_Rij xi yi eps ! a ! a = eps \<and>
                         EP_Vee xi yi eps ! a ! a = 1 / 2 * qe\<^sup>2 / (4 * pi * eps0) * 1 / eps) \<and>
         EP_grad_Vee xi yi eps = EP_grad_Vee xi yi eps' \<and>
         (\<forall>a<length xi. \<forall>b<length xi.
            EP_Vee_fp xi yi eps ! a ! b
              = np_divide (1 / 2 * qe\<^sup>2 / (4 * pi * eps0) * 1) (EP_Rij xi yi eps ! a ! b) \<and>
            EP_gradx_matrix xi yi eps ! a ! b
              = np_divide (- 1 * qe\<^sup>2 / (4 * pi * eps0) * (xi ! b - xi ! a))
                  (EP_Rij xi yi eps ! a ! b ^ 3) \<and>
            EP_grady_matrix xi yi eps ! a ! b
              = np_divide (1 * qe\<^sup>2 / (4 * pi * eps0) * (yi ! a - yi ! b))
                  (EP_Rij xi yi eps ! a ! b ^ 3)) \<and>
         (\<forall>a<length xi.
            EP_Vee_fp xi yi eps ! a ! a = np_divide (1 / 2 * qe\<^sup>2 / (4 * pi * eps0) * 1) eps \<and>
            EP_gradx_matrix xi yi eps ! a ! a = np_divide 0 (eps ^ 3) \<and>
            EP_grady_matrix xi yi eps ! a ! a = np_divide 0 (eps ^ 3)) \<and>
         (eps \<noteq> 0 \<longrightarrow>
            (\<forall>a<length xi.
               EP_Vee_fp xi yi eps ! a ! a = Some (1 / 2 * qe\<^sup>2 / (4 * pi * eps0) * 1 / eps) \<and>
               EP_gradx_matrix xi yi eps ! a ! a = Some 0 \<and>
               EP_grady_matrix xi yi eps ! a ! a = Some 0)) \<and>
         (\<forall>a<length xi.
            EP_Vee_fp xi yi 0 ! a ! a = None \<and>
            EP_gradx_matrix xi yi 0 ! a ! a = None \<and>
            EP_grady_matrix xi yi 0 ! a ! a = None) \<and>
         np_sum_fp (fill_diagonal (EP_Vee_fp xi yi eps) (Some 0))
           = np_sum_fp (fill_diagonal (EP_Vee_fp xi yi eps') (Some 0)) \<and>
         EP_grad_Vee_fp xi yi eps = EP_grad_Vee_fp xi yi eps' \<and>
         ((\<forall>a<length xi. \<forall>b<length xi. a \<noteq> b \<longrightarrow> EP_Rij xi yi eps ! a ! b \<noteq> 0) \<longrightarrow>
            np_sum_fp (fill_diagonal (EP_Vee_fp xi yi eps) (Some 0))
              = Some (np_sum (fill_diagonal (EP_Vee xi yi eps) 0)) \<and>
            EP_grad_Vee_fp xi yi eps = map Some (EP_grad_Vee xi yi eps))"
proof -
  have len: "length xi = length yi"
    using r2xy_lengths [OF assms(1)] assms(2) by simp
  note off = EP_Vee_off_diagonal_sum [OF len]
  have sum_eq: "np_sum (fill_diagonal (EP_Vee xi yi e1) 0)
           = (\<Sum>a<length xi. \<Sum>b<length xi. if a = b then 0 else EP_Vee xi yi e2 ! a ! b)"
    for e1 e2
    by (simp only: EP_pair_energy [OF len] off)
  have "EP_Vtotal ip r
           = (EP_Velectrostatic ip xi yi + np_sum (fill_diagonal (EP_Vee xi yi eps_default) 0)) / qe"
    by (simp add: EP_Vtotal_def assms(2))
  then have total: "EP_Vtotal ip r
           = (EP_Velectrostatic ip xi yi +
              (\<Sum>a<length xi. \<Sum>b<length xi. if a = b then 0 else EP_Vee xi yi eps ! a ! b)) / qe"
    by (simp only: sum_eq [of eps_default eps])
  have diag: "\<forall>a<length xi. EP_Rij xi yi eps ! a ! a = eps \<and>
                         EP_Vee xi yi eps ! a ! a = 1 / 2 * qe\<^sup>2 / (4 * pi * eps0) * 1 / eps"
    by (simp add: EP_Rij_tab [OF len] EP_Vee_tab [OF len])
  have grad: "EP_grad_Vee xi yi eps = EP_grad_Vee xi yi eps'"
    by (simp only: EP_grad_Vee_closed [OF len])
  have entries: "\<forall>a<length xi. \<forall>b<length xi.
            EP_Vee_fp xi yi eps ! a ! b
              = np_divide (1 / 2 * qe\<^sup>2 / (4 * pi * eps0) * 1) (EP_Rij xi yi eps ! a ! b) \<and>
            EP_gradx_matrix xi yi eps ! a ! b
              = np_divide (- 1 * qe\<^sup>2 / (4 * pi * eps0) * (xi ! b - xi ! a))
                  (EP_Rij xi yi eps ! a ! b ^ 3) \<and>
            EP_grady_matrix xi yi eps ! a ! b
              = np_divide (1 * qe\<^sup>2 / (4 * pi * eps0) * (yi ! a - yi ! b))
                  (EP_Rij xi yi eps ! a ! b ^ 3)"
    by (simp add: EP_Rij_tab [OF len] EP_Vee_fp_tab [OF len] EP_gradx_matrix_tab [OF len]
        EP_grady_matrix_tab [OF len])
  have fdiag: "\<forall>a<length xi.
            EP_Vee_fp xi yi e ! a ! a = np_divide (1 / 2 * qe\<^sup>2 / (4 * pi * eps0) * 1) e \<and>
            EP_gradx_matrix xi yi e ! a ! a = np_divide 0 (e ^ 3) \<and>
            EP_grady_matrix xi yi e ! a ! a = np_divide 0 (e ^ 3)" for e
    by (simp add: EP_Vee_fp_tab [OF len] EP_gradx_matrix_tab [OF len]
        EP_grady_matrix_tab [OF len])
  have fin: "eps \<noteq> 0 \<longrightarrow>
            (\<forall>a<length xi.
               EP_Vee_fp xi yi eps ! a ! a = Some (1 / 2 * qe\<^sup>2 / (4 * pi * eps0) * 1 / eps) \<and>
               EP_gradx_matrix xi yi eps ! a ! a = Some 0 \<and>
               EP_grady_matrix xi yi eps ! a ! a = Some 0)"
    using fdiag [of eps] by (simp add: np_divide_def)
  have zero: "\<forall>a<length xi.
            EP_Vee_fp xi yi 0 ! a ! a = None \<and>
            EP_gradx_matrix xi yi 0 ! a ! a = None \<and>
            EP_grady_matrix xi yi 0 ! a ! a = None"
    using fdiag [of 0] by (simp add: np_divide_def)
  have fsum: "np_sum_fp (fill_diagonal (EP_Vee_fp xi yi eps) (Some 0))
           = np_sum_fp (fill_diagonal (EP_Vee_fp xi yi eps') (Some 0))"
    by (simp only: zeroed_Vee_fp [OF len])
  have fgrad: "EP_grad_Vee_fp xi yi eps = EP_grad_Vee_fp xi yi eps'"
    by (rule EP_grad_Vee_fp_eps [OF len])
  have link: "(\<forall>a<length xi. \<forall>b<length xi. a \<noteq> b \<longrightarrow> EP_Rij xi yi eps ! a ! b \<noteq> 0) \<longrightarrow>
            np_sum_fp (fill_diagonal (EP_Vee_fp xi yi eps) (Some 0))
              = Some (np_sum (fill_diagonal (EP_Vee xi yi eps) 0)) \<and>
            EP_grad_Vee_fp xi yi eps = map Some (EP_grad_Vee xi yi eps)"
  proof (intro impI conjI)
    assume nz: "\<forall>a<length xi. \<forall>b<length xi. a \<noteq> b \<longrightarrow> EP_Rij xi yi eps ! a ! b \<noteq> 0"
    from zeroed_Vee_fp_finite [OF len nz]
    show "np_sum_fp (fill_diagonal (EP_Vee_fp xi yi eps) (Some 0))
              = Some (np_sum (fill_diagonal (EP_Vee xi yi eps) 0))"
      by (simp only: np_sum_fp_Some)
    show "EP_grad_Vee_fp xi yi eps = map Some (EP_grad_Vee xi yi eps)"
      by (rule EP_grad_Vee_fp_finite [OF len nz])
  qed
  show ?thesis
    by (intro conjI) (rule sum_eq total diag grad entries fdiag fin zero fsum fgrad link)+
qed

text \<open>
  Claim C9.  For a single charge at \<open>(x, y)\<close> the distance matrix is \<open>[[eps]]\<close>, whose
  default entry \<open>1e-15\<close> is not zero; the zeroed interaction matrix is \<open>[[0]]\<close> and
  its sum is 0, every component of \<^verbatim>\<open>grad_Vee\<close> is 0, and \<^verbatim>\<open>Vtotal\<close> and
  \<^verbatim>\<open>grad_total\<close> reduce to the field and its two partial derivatives at the charge.
  No quotient is by zero: with the default \<open>eps\<close> the one entry of \<^verbatim>\<open>Vee\<close> is the
  finite quotient of the constant by \<open>eps\<close>, the one entry of \<^verbatim>\<open>gradx_matrix\<close> and of
  \<^verbatim>\<open>grady_matrix\<close> is the finite quotient of zero by \<open>eps\<^sup>3\<close>, and the sums taken after
  the diagonal is zeroed are the finite number 0; the other divisors, \<open>4\<pi>\<cdot>eps0\<close> and
  \<open>qe\<close>, are constants that are not zero.  It is the substitution that keeps the
  quotients finite: with 0 in the place of \<open>eps\<close>, the self-distance of the charge,
  each of the three is a division by zero.
\<close>

theorem single_charge:
  "EP_Rij [x] [y] eps = [[eps]] \<and>
   fill_diagonal (EP_Vee [x] [y] eps) 0 = [[0]] \<and>
   np_sum (fill_diagonal (EP_Vee [x] [y] eps) 0) = 0 \<and>
   EP_grad_Vee [x] [y] eps = [0, 0] \<and>
   eps_default \<noteq> 0 \<and>
   EP_Vtotal ip [x, y] = ip 0 0 x y \<and>
   EP_grad_total ip [x, y] = [ip 1 0 x y, ip 0 1 x y] \<and>
   EP_Vee_fp [x] [y] eps_default = [[Some (1 / 2 * qe\<^sup>2 / (4 * pi * eps0) * 1 / eps_default)]] \<and>
   EP_gradx_matrix [x] [y] eps_default = [[Some 0]] \<and>
   EP_grady_matrix [x] [y] eps_default = [[Some 0]] \<and>
   np_sum_fp (fill_diagonal (EP_Vee_fp [x] [y] eps_default) (Some 0)) = Some 0 \<and>
   EP_grad_Vee_fp [x] [y] eps_default = [Some 0, Some 0] \<and>
   EP_Vee_fp [x] [y] 0 = [[None]] \<and>
   EP_gradx_matrix [x] [y] 0 = [[None]] \<and>
   EP_grady_matrix [x] [y] 0 = [[None]] \<and>
   4 * pi * eps0 \<noteq> 0 \<and> qe \<noteq> 0"
proof -
  have q: "qe \<noteq> 0" by (simp add: qe_def)
  have e0: "4 * pi * eps0 \<noteq> 0" by (simp add: eps0_def)
  have ed: "eps_default \<noteq> 0" by (simp add: eps_default_def)
  have l: "length [x] = length [y]" by simp
  have R: "EP_Rij [x] [y] eps = [[eps]]" for eps
    by (simp add: EP_Rij_tab [OF l] tab_def)
  have V: "fill_diagonal (EP_Vee [x] [y] eps) 0 = [[0]]" for eps
    by (simp add: EP_Vee_def R mat_map_def fill_diagonal_def)
  have G: "EP_grad_Vee [x] [y] eps = [0, 0]" for eps
    by (simp add: EP_grad_Vee_closed [OF l])
  have t1: "EP_Vtotal ip [x, y] = ip 0 0 x y"
    using q by (simp add: EP_Vtotal_def r2xy_def V np_sum_def EP_Velectrostatic_def EP_V_def ev_def)
  have t2: "EP_grad_total ip [x, y] = [ip 1 0 x y, ip 0 1 x y]"
    by (simp add: EP_grad_total_def r2xy_def G EP_dVdx_def EP_dVdy_def ev_def
        assign_step2_from1_def numeral_2_eq_2)
  have s: "np_sum (fill_diagonal (EP_Vee [x] [y] eps) 0) = 0"
    by (simp add: V np_sum_def)
  have Vf: "EP_Vee_fp [x] [y] e = [[np_divide (1 / 2 * qe\<^sup>2 / (4 * pi * eps0) * 1) e]]" for e
    by (simp add: EP_Vee_fp_tab [OF l] tab_def)
  have Gx: "EP_gradx_matrix [x] [y] e = [[np_divide 0 (e ^ 3)]]" for e
    by (simp add: EP_gradx_matrix_tab [OF l] tab_def)
  have Gy: "EP_grady_matrix [x] [y] e = [[np_divide 0 (e ^ 3)]]" for e
    by (simp add: EP_grady_matrix_tab [OF l] tab_def)
  have f1: "EP_Vee_fp [x] [y] eps_default
              = [[Some (1 / 2 * qe\<^sup>2 / (4 * pi * eps0) * 1 / eps_default)]]"
    using ed by (simp only: Vf np_divide_def if_False)
  have f2: "EP_gradx_matrix [x] [y] eps_default = [[Some 0]]"
    using ed by (simp add: Gx np_divide_def)
  have f3: "EP_grady_matrix [x] [y] eps_default = [[Some 0]]"
    using ed by (simp add: Gy np_divide_def)
  have f4: "np_sum_fp (fill_diagonal (EP_Vee_fp [x] [y] eps_default) (Some 0)) = Some 0"
    by (simp add: Vf fill_diagonal_def np_sum_fp_def)
  have f5: "EP_grad_Vee_fp [x] [y] eps_default = [Some 0, Some 0]"
    by (simp add: EP_grad_Vee_fp_def Gx Gy fill_diagonal_def np_sum_axis0_fp_def ncols_def
        assign_step2_from1_def numeral_2_eq_2)
  have z1: "EP_Vee_fp [x] [y] 0 = [[None]]" by (simp add: Vf np_divide_def)
  have z2: "EP_gradx_matrix [x] [y] 0 = [[None]]" by (simp add: Gx np_divide_def)
  have z3: "EP_grady_matrix [x] [y] 0 = [[None]]" by (simp add: Gy np_divide_def)
  show ?thesis
    by (intro conjI) (rule R V s G ed t1 t2 f1 f2 f3 f4 f5 z1 z2 z3 e0 q)+
qed

lemma shift_positive_tab:
  "shift_positive self (tab n m g) = tab n m (\<lambda>a b. if g a b > 0 then g a b - box_y_length self else g a b)"
  by (simp add: shift_positive_def mat_map_tab)

lemma calculate_Rij_tab:
  "length xi = length yi \<Longrightarrow>
   calculate_Rij self xi yi = tab (length xi) (length xi)
     (\<lambda>a b. min (sqrt ((xi ! b - xi ! a)\<^sup>2 + (yi ! a - yi ! b)\<^sup>2))
                 (sqrt ((xi ! b - xi ! a)\<^sup>2 +
                    ((if yi ! a > 0 then yi ! a - box_y_length self else yi ! a) -
                     (if yi ! b > 0 then yi ! b - box_y_length self else yi ! b))\<^sup>2)))"
  by (simp add: calculate_Rij_def meshgrid_tab np_T_tab sqrt_sq_sum_tab shift_positive_tab
      mat_map2_tab)

lemma wrapped_square_less:
  fixes d L :: real
  assumes "L / 2 < d" "d < L"
  shows "(L - d)\<^sup>2 < d\<^sup>2"
proof -
  have "L - d < d" "0 \<le> L - d" using assms by simp_all
  then show ?thesis by (simp add: power_strict_mono)
qed

text \<open>
  Claim C4.  For two charges \<open>a\<close> and \<open>b\<close> whose y-coordinates lie in
  \<open>[-box_y_length/2, box_y_length/2)\<close> and are more than half the domain length
  apart, the entry of \<^verbatim>\<open>calculate_Rij\<close> for the pair is the wrapped separation
  \<open>sqrt(\<Delta>x\<^sup>2 + (box_y_length - |\<Delta>y|)\<^sup>2)\<close>, and it is strictly less than the direct
  separation.  (The hypotheses make \<open>a\<close> and \<open>b\<close> different, so the entry is
  off-diagonal, and hold for \<open>(a, b)\<close> exactly when they hold for \<open>(b, a)\<close>.)
\<close>

theorem periodic_minimum_image:
  assumes "length xi = length yi" and "a < length xi" and "b < length xi"
    and "- box_y_length self / 2 \<le> yi ! a" and "yi ! a < box_y_length self / 2"
    and "- box_y_length self / 2 \<le> yi ! b" and "yi ! b < box_y_length self / 2"
    and "\<bar>yi ! a - yi ! b\<bar> > box_y_length self / 2"
  shows "calculate_Rij self xi yi ! a ! b
           = sqrt ((xi ! a - xi ! b)\<^sup>2 + (box_y_length self - \<bar>yi ! a - yi ! b\<bar>)\<^sup>2) \<and>
         calculate_Rij self xi yi ! a ! b < sqrt ((xi ! a - xi ! b)\<^sup>2 + (yi ! a - yi ! b)\<^sup>2)"
proof -
  let ?L = "box_y_length self"
  let ?d = "\<bar>yi ! a - yi ! b\<bar>"
  let ?sa = "if yi ! a > 0 then yi ! a - ?L else yi ! a"
  let ?sb = "if yi ! b > 0 then yi ! b - ?L else yi ! b"
  have dL: "?L / 2 < ?d" "?d < ?L" using assms by linarith+
  have shifted: "(?sa - ?sb)\<^sup>2 = (?L - ?d)\<^sup>2"
  proof (cases "yi ! a > yi ! b")
    case True
    with assms have "yi ! a > 0" "\<not> yi ! b > 0" by linarith+
    with True show ?thesis by (simp add: power2_eq_square algebra_simps)
  next
    case False
    with assms have "yi ! b > 0" "\<not> yi ! a > 0" by linarith+
    with False show ?thesis by (simp add: power2_eq_square algebra_simps)
  qed
  have x: "(xi ! b - xi ! a)\<^sup>2 = (xi ! a - xi ! b)\<^sup>2" by (rule power2_commute)
  have "(?L - ?d)\<^sup>2 < ?d\<^sup>2" using dL by (rule wrapped_square_less)
  then have less: "sqrt ((xi ! a - xi ! b)\<^sup>2 + (?L - ?d)\<^sup>2)
                 < sqrt ((xi ! a - xi ! b)\<^sup>2 + (yi ! a - yi ! b)\<^sup>2)"
    by simp
  have "calculate_Rij self xi yi ! a ! b
          = min (sqrt ((xi ! a - xi ! b)\<^sup>2 + (yi ! a - yi ! b)\<^sup>2))
                (sqrt ((xi ! a - xi ! b)\<^sup>2 + (?L - ?d)\<^sup>2))"
    using assms(2,3) by (simp only: calculate_Rij_tab [OF assms(1)] nth_nth_tab shifted x)
  with less show ?thesis by simp
qed

theorem periodic_minimum_image_witness:
  "calculate_Rij example_solver [0, 0] [3 / 2, - 3 / 2] ! 0 ! 1 = 1 \<and>
   calculate_Rij example_solver [0, 0] [3 / 2, - 3 / 2] ! 0 ! 1 < 3"
proof -
  have s: "sqrt 9 = 3" using real_sqrt_abs [of 3] by simp
  show ?thesis
    using periodic_minimum_image [of "[0, 0]" "[3 / 2, - 3 / 2]" 0 1 example_solver] s
    by (simp add: example_solver_def)
qed

theorem pair_energy_sums_off_diagonal_witness:
  "even (length two_charges) \<and>
   r2xy two_charges = ([0, 1 / 10 ^ 6], [0, 0]) \<and>
   np_sum (fill_diagonal (EP_Vee [0, 1 / 10 ^ 6] [0, 0] 1) 0)
     = (\<Sum>a<length [0, 1 / 10 ^ 6 :: real]. \<Sum>b<length [0, 1 / 10 ^ 6 :: real].
          if a = b then 0 else EP_Vee [0, 1 / 10 ^ 6] [0, 0] 2 ! a ! b) \<and>
   EP_Rij [0, 1 / 10 ^ 6] [0, 0] 1 ! 0 ! 0 = 1 \<and>
   EP_grad_Vee [0, 1 / 10 ^ 6] [0, 0] 1 = EP_grad_Vee [0, 1 / 10 ^ 6] [0, 0] 2 \<and>
   EP_Vee_fp [0, 1 / 10 ^ 6] [0, 0] 1 ! 0 ! 0 = Some (1 / 2 * qe\<^sup>2 / (4 * pi * eps0) * 1 / 1) \<and>
   EP_gradx_matrix [0, 1 / 10 ^ 6] [0, 0] 1 ! 0 ! 0 = Some 0 \<and>
   EP_grady_matrix [0, 1 / 10 ^ 6] [0, 0] 1 ! 0 ! 0 = Some 0 \<and>
   EP_gradx_matrix [0, 1 / 10 ^ 6] [0, 0] 0 ! 0 ! 0 = None \<and>
   EP_grad_Vee_fp [0, 1 / 10 ^ 6] [0, 0] 1 = EP_grad_Vee_fp [0, 1 / 10 ^ 6] [0, 0] 2"
proof -
  have e: "even (length two_charges)" by (simp add: two_charges_def)
  have r: "r2xy two_charges = ([0, 1 / 10 ^ 6], [0, 0])"
    unfolding two_charges_def by (rule r2xy_two)
  note inst = pair_energy_sums_off_diagonal [OF e r, of 1 2 zero_field]
  note c1 = inst [THEN conjunct1]
  note c3 = inst [THEN conjunct2, THEN conjunct2, THEN conjunct1]
  note c4 = inst [THEN conjunct2, THEN conjunct2, THEN conjunct2, THEN conjunct1]
  note t6 = inst [THEN conjunct2, THEN conjunct2, THEN conjunct2, THEN conjunct2,
      THEN conjunct2, THEN conjunct2]
  note c7 = t6 [THEN conjunct1]
  note c8 = t6 [THEN conjunct2, THEN conjunct1]
  note c10 = t6 [THEN conjunct2, THEN conjunct2, THEN conjunct2, THEN conjunct1]
  have z: "(0::nat) < length [0, 1 / 10 ^ 6 :: real]" by simp
  have o: "(1::real) \<noteq> 0" by simp
  note d = c3 [THEN spec, of 0, THEN mp, OF z, THEN conjunct1]
  note f = c7 [THEN mp, OF o, THEN spec, of 0, THEN mp, OF z]
  note n = c8 [THEN spec, of 0, THEN mp, OF z, THEN conjunct2, THEN conjunct1]
  show ?thesis
    by (intro conjI)
      (rule e r c1 d c4 f [THEN conjunct1] f [THEN conjunct2, THEN conjunct1]
         f [THEN conjunct2, THEN conjunct2] n c10)+
qed

section \<open>The gradient as the derivative of the energy\<close>

text \<open>
  The derivative of \<^verbatim>\<open>Vtotal\<close> in the coordinate \<open>j\<close> of the position vector \<open>r\<close> is
  the derivative at \<open>r ! j\<close> of the function \<open>t \<mapsto> Vtotal (r[j := t])\<close>; \<open>j = 2k\<close> is
  the coordinate \<open>x\<^sub>k\<close> and \<open>j = 2k + 1\<close> the coordinate \<open>y\<^sub>k\<close>.
\<close>

subsection \<open>Derivatives of the sums of the energy\<close>

lemma DERIV_coulomb:
  fixes u s :: "real \<Rightarrow> real"
  assumes "DERIV u t0 :> u'" and "DERIV s t0 :> s'" and "0 < (u t0)\<^sup>2 + s t0"
  shows "DERIV (\<lambda>t. K * 1 / sqrt ((u t)\<^sup>2 + s t)) t0
           :> - K * (2 * u t0 * u' + s') / (2 * (sqrt ((u t0)\<^sup>2 + s t0)) ^ 3)"
proof -
  let ?R = "sqrt ((u t0)\<^sup>2 + s t0)"
  have R: "0 < ?R" using assms(3) by simp
  have R2: "?R * ?R = (u t0)\<^sup>2 + s t0" using assms(3) by simp
  have "DERIV (\<lambda>t. K * 1 / sqrt ((u t)\<^sup>2 + s t)) t0
          :> (0 * sqrt ((u t0)\<^sup>2 + s t0) - K * 1 * ((2 * u t0 * u' + s') * (inverse ?R / 2)))
               / (?R * ?R)"
    using assms R
    by (auto intro!: derivative_eq_intros)
  also have "(0 * sqrt ((u t0)\<^sup>2 + s t0) - K * 1 * ((2 * u t0 * u' + s') * (inverse ?R / 2)))
               / (?R * ?R) = - K * (2 * u t0 * u' + s') / (2 * ?R ^ 3)"
  proof -
    have "?R \<noteq> 0" using R by simp
    then show ?thesis
      unfolding power3_eq_cube by (simp add: divide_simps) 
  qed
  finally show ?thesis .
qed

lemma sum_pairs_split:
  fixes D1 D2 :: "nat \<Rightarrow> real"
  assumes "k < N"
  shows "(\<Sum>a<N. \<Sum>b<N. if a = b then 0 else if b = k then D1 a else if a = k then D2 b else 0)
           = (\<Sum>a<N. if a = k then 0 else D1 a + D2 a)"
proof -
  have inner: "(\<Sum>b<N. if a = b then 0 else if b = k then D1 a else if a = k then D2 b else 0)
       = (if a = k then (\<Sum>b<N. if b = k then 0 else D2 b) else D1 a)" for a
  proof (cases "a = k")
    case True
    then show ?thesis by (auto intro!: sum.cong)
  next
    case False
    have "(\<Sum>b<N. if a = b then 0 else if b = k then D1 a else if a = k then D2 b else 0)
                = (\<Sum>b<N. if b = k then D1 a else 0)"
      using False by (intro sum.cong refl) auto
    also have "\<dots> = D1 a" using assms by simp
    finally show ?thesis using False by simp
  qed
  have "(\<Sum>a<N. if a = k then (\<Sum>b<N. if b = k then 0 else D2 b) else D1 a)
         = (\<Sum>a<N. (if a = k then (\<Sum>b<N. if b = k then 0 else D2 b) else 0)
                    + (if a = k then 0 else D1 a))"
    by (intro sum.cong refl) auto
  also have "\<dots> = (\<Sum>b<N. if b = k then 0 else D2 b) + (\<Sum>a<N. if a = k then 0 else D1 a)"
    using assms by (simp add: sum.distrib)
  also have "\<dots> = (\<Sum>a<N. (if a = k then 0 else D2 a) + (if a = k then 0 else D1 a))"
    by (simp only: sum.distrib)
  also have "\<dots> = (\<Sum>a<N. if a = k then 0 else D1 a + D2 a)"
    by (intro sum.cong refl) auto
  finally show ?thesis by (simp only: inner)
qed

lemma DERIV_pair_sum:
  fixes E :: "nat \<Rightarrow> nat \<Rightarrow> real \<Rightarrow> real"
  assumes k: "k < N"
    and other: "\<And>a b t. a < N \<Longrightarrow> b < N \<Longrightarrow> a \<noteq> k \<Longrightarrow> b \<noteq> k \<Longrightarrow> E a b t = E a b t0"
    and col: "\<And>a. a < N \<Longrightarrow> a \<noteq> k \<Longrightarrow> DERIV (\<lambda>t. E a k t) t0 :> D1 a"
    and row: "\<And>b. b < N \<Longrightarrow> b \<noteq> k \<Longrightarrow> DERIV (\<lambda>t. E k b t) t0 :> D2 b"
  shows "DERIV (\<lambda>t. \<Sum>a<N. \<Sum>b<N. if a = b then 0 else E a b t) t0
           :> (\<Sum>a<N. if a = k then 0 else D1 a + D2 a)"
proof -
  let ?d = "\<lambda>a b. if a = b then 0 else if b = k then D1 a else if a = k then D2 b else 0"
  have entry: "DERIV (\<lambda>t. if a = b then 0 else E a b t) t0 :> ?d a b"
    if "a < N" "b < N" for a b
  proof -
    consider "a = b" | "a \<noteq> b" "b = k" | "a \<noteq> b" "b \<noteq> k" "a = k" | "a \<noteq> b" "b \<noteq> k" "a \<noteq> k"
      by blast
    then show ?thesis
    proof cases
      case 1
      then show ?thesis by simp
    next
      case 2
      with col [of a] that show ?thesis by simp
    next
      case 3
      with row [of b] that show ?thesis by simp
    next
      case 4
      have c: "E a b t = E a b t0" for t
        by (rule other) (use that 4 in blast)+
      have eq: "E a b = (\<lambda>t. E a b t0)" by (intro ext) (rule c)
      have "DERIV (E a b) t0 :> 0" by (subst eq) (rule DERIV_const)
      with 4 show ?thesis by simp
    qed
  qed
  have "DERIV (\<lambda>t. \<Sum>a<N. \<Sum>b<N. if a = b then 0 else E a b t) t0 :> (\<Sum>a<N. \<Sum>b<N. ?d a b)"
  proof (rule DERIV_sum)
    fix a assume a: "a \<in> {..<N}"
    show "DERIV (\<lambda>t. \<Sum>b<N. if a = b then 0 else E a b t) t0 :> (\<Sum>b<N. ?d a b)"
    proof (rule DERIV_sum)
      fix b assume "b \<in> {..<N}"
      with a show "DERIV (\<lambda>t. if a = b then 0 else E a b t) t0 :> ?d a b"
        by (intro entry) simp_all
    qed
  qed
  then show ?thesis by (simp only: sum_pairs_split [OF k])
qed

lemma DERIV_single_sum:
  fixes F :: "nat \<Rightarrow> real \<Rightarrow> real"
  assumes k: "k < N"
    and other: "\<And>i t. i < N \<Longrightarrow> i \<noteq> k \<Longrightarrow> F i t = F i t0"
    and at_k: "DERIV (\<lambda>t. F k t) t0 :> D"
  shows "DERIV (\<lambda>t. \<Sum>i<N. F i t) t0 :> D"
proof -
  have entry: "DERIV (\<lambda>t. F i t) t0 :> (if i = k then D else 0)" if "i < N" for i
  proof (cases "i = k")
    case True
    with at_k show ?thesis by simp
  next
    case False
    have c: "F i t = F i t0" for t
      by (rule other) (use that False in blast)+
    have eq: "F i = (\<lambda>t. F i t0)" by (intro ext) (rule c)
    have "DERIV (F i) t0 :> 0" by (subst eq) (rule DERIV_const)
    with False show ?thesis by simp
  qed
  have "DERIV (\<lambda>t. \<Sum>i<N. F i t) t0 :> (\<Sum>i<N. if i = k then D else 0)"
  proof (rule DERIV_sum)
    fix i assume "i \<in> {..<N}"
    then show "DERIV (\<lambda>t. F i t) t0 :> (if i = k then D else 0)"
      by (intro entry) simp
  qed
  then show ?thesis using k by simp
qed

lemma cancel_two:
  fixes K d e Q :: real
  shows "- K * (2 * d * e + 0) / (2 * Q) = - K * (d * e) / Q"
proof -
  have "- K * (2 * d * e + 0) = 2 * (- K * (d * e))" by simp
  then show ?thesis by (simp only: mult_divide_mult_cancel_left_if) simp
qed

lemma DERIV_coulomb_x_col:
  fixes p c K t0 :: real
  assumes "0 < (t0 - p)\<^sup>2 + c"
  shows "DERIV (\<lambda>t. K * 1 / sqrt ((t - p)\<^sup>2 + c)) t0
           :> - K * (t0 - p) / (sqrt ((t0 - p)\<^sup>2 + c)) ^ 3"
proof -
  have u: "DERIV (\<lambda>t. t - p) t0 :> 1" by (auto intro!: derivative_eq_intros)
  have s: "DERIV (\<lambda>t. c) t0 :> 0" by simp
  have "- K * (2 * (t0 - p) * 1 + 0) / (2 * (sqrt ((t0 - p)\<^sup>2 + c)) ^ 3)
          = - K * (t0 - p) / (sqrt ((t0 - p)\<^sup>2 + c)) ^ 3"
    using cancel_two [of K "t0 - p" 1 "(sqrt ((t0 - p)\<^sup>2 + c)) ^ 3"] by simp
  with DERIV_coulomb [OF u s assms, of K] show ?thesis by (simp only:)
qed

lemma DERIV_coulomb_x_row:
  fixes p c K t0 :: real
  assumes "0 < (p - t0)\<^sup>2 + c"
  shows "DERIV (\<lambda>t. K * 1 / sqrt ((p - t)\<^sup>2 + c)) t0
           :> K * (p - t0) / (sqrt ((p - t0)\<^sup>2 + c)) ^ 3"
proof -
  have u: "DERIV (\<lambda>t. p - t) t0 :> - 1" by (auto intro!: derivative_eq_intros)
  have s: "DERIV (\<lambda>t. c) t0 :> 0" by simp
  have a: "- K * (2 * (p - t0) * (- 1) + 0) / (2 * (sqrt ((p - t0)\<^sup>2 + c)) ^ 3)
          = - K * ((p - t0) * (- 1)) / (sqrt ((p - t0)\<^sup>2 + c)) ^ 3"
    by (rule cancel_two)
  have b: "- K * ((p - t0) * (- 1)) = K * (p - t0)" by (simp add: algebra_simps)
  from a b have "- K * (2 * (p - t0) * (- 1) + 0) / (2 * (sqrt ((p - t0)\<^sup>2 + c)) ^ 3)
          = K * (p - t0) / (sqrt ((p - t0)\<^sup>2 + c)) ^ 3"
    by (simp only:)
  with DERIV_coulomb [OF u s assms, of K] show ?thesis by (simp only:)
qed

lemma DERIV_coulomb_y_col:
  fixes p c K t0 :: real
  assumes "0 < c + (p - t0)\<^sup>2"
  shows "DERIV (\<lambda>t. K * 1 / sqrt (c + (p - t)\<^sup>2)) t0
           :> K * (p - t0) / (sqrt (c + (p - t0)\<^sup>2)) ^ 3"
  using DERIV_coulomb_x_row [of p t0 c K] assms by (simp add: add.commute)

lemma DERIV_coulomb_y_row:
  fixes p c K t0 :: real
  assumes "0 < c + (t0 - p)\<^sup>2"
  shows "DERIV (\<lambda>t. K * 1 / sqrt (c + (t - p)\<^sup>2)) t0
           :> - K * (t0 - p) / (sqrt (c + (t0 - p)\<^sup>2)) ^ 3"
  using DERIV_coulomb_x_col [of t0 p c K] assms by (simp add: add.commute)

lemma pair_terms:
  fixes q e d Q :: real
  shows "- (1 / 2 * q / e) * d / Q + (1 / 2 * q / e) * (- d) / Q = - 1 * q / e * d / Q"
proof -
  have "- (1 / 2 * q / e) * d / Q + (1 / 2 * q / e) * (- d) / Q
          = (- (1 / 2 * q / e) * d + (1 / 2 * q / e) * (- d)) / Q"
    by (simp only: add_divide_distrib)
  also have "- (1 / 2 * q / e) * d + (1 / 2 * q / e) * (- d) = - 1 * q / e * d"
    by (simp add: algebra_simps)
  finally show ?thesis .
qed

lemma pair_terms_pos:
  fixes q e d Q :: real
  shows "(1 / 2 * q / e) * d / Q + - (1 / 2 * q / e) * (- d) / Q = 1 * q / e * d / Q"
proof -
  have "(1 / 2 * q / e) * d / Q + - (1 / 2 * q / e) * (- d) / Q
          = ((1 / 2 * q / e) * d + - (1 / 2 * q / e) * (- d)) / Q"
    by (simp only: add_divide_distrib)
  also have "(1 / 2 * q / e) * d + - (1 / 2 * q / e) * (- d) = 1 * q / e * d"
    by (simp add: algebra_simps)
  finally show ?thesis .
qed

lemma sum_list_map2_nth:
  assumes "length xs = length ys"
  shows "sum_list (map2 f xs ys) = (\<Sum>i<length xs. f (xs ! i) (ys ! i))"
proof -
  have "map2 f xs ys = map (\<lambda>i. f (xs ! i) (ys ! i)) [0..<length xs]"
    using assms by (intro nth_equalityI) simp_all
  then show ?thesis by (simp only: sum_list_upt)
qed

lemma r2xy_update_even:
  assumes "even (length r)" and "k < length r div 2"
  shows "r2xy (r[2 * k := t]) = ((fst (r2xy r))[k := t], snd (r2xy r))"
proof -
  have e: "even (length (r[2 * k := t]))" using assms(1) by simp
  have k2: "2 * k < length r" using assms(2) by linarith
  have l: "length (fst (r2xy (r[2 * k := t]))) = length r div 2"
    "length (snd (r2xy (r[2 * k := t]))) = length r div 2"
    using r2xy_lengths [OF e] by simp_all
  have l0: "length (fst (r2xy r)) = length r div 2" "length (snd (r2xy r)) = length r div 2"
    using r2xy_lengths [OF assms(1)] by simp_all
  have "fst (r2xy (r[2 * k := t])) = (fst (r2xy r))[k := t]"
  proof (rule nth_equalityI)
    show "length (fst (r2xy (r[2 * k := t]))) = length ((fst (r2xy r))[k := t])"
      using l l0 by simp
  next
    fix i assume "i < length (fst (r2xy (r[2 * k := t])))"
    then have i: "i < length r div 2" using l by simp
    then have i2: "2 * i < length r" by linarith
    show "fst (r2xy (r[2 * k := t])) ! i = (fst (r2xy r))[k := t] ! i"
      using r2xy_nth [OF e, of i] r2xy_nth [OF assms(1), of i] i i2 l0 k2
      by (simp add: nth_list_update)
  qed
  moreover have "snd (r2xy (r[2 * k := t])) = snd (r2xy r)"
  proof (rule nth_equalityI)
    show "length (snd (r2xy (r[2 * k := t]))) = length (snd (r2xy r))"
      using l l0 by simp
  next
    fix i assume "i < length (snd (r2xy (r[2 * k := t])))"
    then have i: "i < length r div 2" using l by simp
    then have i2: "2 * i + 1 < length r" using assms(1) by (auto elim!: evenE)
    have "2 * i + 1 \<noteq> 2 * k" by presburger
    then show "snd (r2xy (r[2 * k := t])) ! i = snd (r2xy r) ! i"
      using r2xy_nth [OF e, of i] r2xy_nth [OF assms(1), of i] i i2 k2
      by (simp add: nth_list_update)
  qed
  ultimately show ?thesis by (simp add: prod_eq_iff)
qed

lemma r2xy_update_odd:
  assumes "even (length r)" and "k < length r div 2"
  shows "r2xy (r[2 * k + 1 := t]) = (fst (r2xy r), (snd (r2xy r))[k := t])"
proof -
  have e: "even (length (r[2 * k + 1 := t]))" using assms(1) by simp
  have k2: "2 * k + 1 < length r" using assms by (auto elim!: evenE)
  have l: "length (fst (r2xy (r[2 * k + 1 := t]))) = length r div 2"
    "length (snd (r2xy (r[2 * k + 1 := t]))) = length r div 2"
    using r2xy_lengths [OF e] by simp_all
  have l0: "length (fst (r2xy r)) = length r div 2" "length (snd (r2xy r)) = length r div 2"
    using r2xy_lengths [OF assms(1)] by simp_all
  have "fst (r2xy (r[2 * k + 1 := t])) = fst (r2xy r)"
  proof (rule nth_equalityI)
    show "length (fst (r2xy (r[2 * k + 1 := t]))) = length (fst (r2xy r))"
      using l l0 by simp
  next
    fix i assume "i < length (fst (r2xy (r[2 * k + 1 := t])))"
    then have i: "i < length r div 2" using l by simp
    then have i2: "2 * i < length r" by linarith
    have "2 * i \<noteq> 2 * k + 1" by presburger
    then show "fst (r2xy (r[2 * k + 1 := t])) ! i = fst (r2xy r) ! i"
      using r2xy_nth [OF e, of i] r2xy_nth [OF assms(1), of i] i i2 k2
      by (simp add: nth_list_update)
  qed
  moreover have "snd (r2xy (r[2 * k + 1 := t])) = (snd (r2xy r))[k := t]"
  proof (rule nth_equalityI)
    show "length (snd (r2xy (r[2 * k + 1 := t]))) = length ((snd (r2xy r))[k := t])"
      using l l0 by simp
  next
    fix i assume "i < length (snd (r2xy (r[2 * k + 1 := t])))"
    then have i: "i < length r div 2" using l by simp
    then have i2: "2 * i + 1 < length r" using assms(1) by (auto elim!: evenE)
    show "snd (r2xy (r[2 * k + 1 := t])) ! i = (snd (r2xy r))[k := t] ! i"
      using r2xy_nth [OF e, of i] r2xy_nth [OF assms(1), of i] i i2 l0 k2
      by (simp add: nth_list_update)
  qed
  ultimately show ?thesis by (simp add: prod_eq_iff)
qed

lemma EP_Vtotal_closed:
  assumes "length xi = length yi" and "r2xy r = (xi, yi)"
  shows "EP_Vtotal ip r =
     (qe * (\<Sum>i<length xi. ip 0 0 (xi ! i) (yi ! i)) +
      (\<Sum>a<length xi. \<Sum>b<length xi. if a = b then 0 else
         1 / 2 * qe\<^sup>2 / (4 * pi * eps0) * 1 / sqrt ((xi ! b - xi ! a)\<^sup>2 + (yi ! a - yi ! b)\<^sup>2))) / qe"
  by (simp only: EP_Vtotal_def assms(2) prod.case Let_def EP_Velectrostatic_def EP_V_def ev_def
      sum_list_map2_nth [OF assms(1)] EP_pair_energy [OF assms(1)])

lemma EP_grad_total_closed:
  assumes len: "length xi = length yi" and xy: "r2xy r = (xi, yi)"
    and lr: "length r = 2 * length xi" and k: "k < length xi"
  shows "EP_grad_total ip r ! (2 * k) =
           ip 1 0 (xi ! k) (yi ! k) +
           (\<Sum>a<length xi. if a = k then 0 else
               - 1 * qe\<^sup>2 / (4 * pi * eps0) * (xi ! k - xi ! a)
                 / (sqrt ((xi ! k - xi ! a)\<^sup>2 + (yi ! a - yi ! k)\<^sup>2)) ^ 3) / qe"
    and "EP_grad_total ip r ! (2 * k + 1) =
           ip 0 1 (xi ! k) (yi ! k) +
           (\<Sum>a<length xi. if a = k then 0 else
               1 * qe\<^sup>2 / (4 * pi * eps0) * (yi ! a - yi ! k)
                 / (sqrt ((xi ! k - xi ! a)\<^sup>2 + (yi ! a - yi ! k)\<^sup>2)) ^ 3) / qe"
proof -
  let ?N = "length xi"
  let ?dx = "map2 (ip 1 0) xi yi" and ?dy = "map2 (ip 0 1) xi yi"
  let ?gx = "map (\<lambda>b. \<Sum>a<length xi. if a = b then 0 else
                 - 1 * qe\<^sup>2 / (4 * pi * eps0) * (xi ! b - xi ! a)
                   / (sqrt ((xi ! b - xi ! a)\<^sup>2 + (yi ! a - yi ! b)\<^sup>2)) ^ 3) [0..<length xi]"
  let ?gy = "map (\<lambda>b. \<Sum>a<length xi. if a = b then 0 else
                 1 * qe\<^sup>2 / (4 * pi * eps0) * (yi ! a - yi ! b)
                   / (sqrt ((xi ! b - xi ! a)\<^sup>2 + (yi ! a - yi ! b)\<^sup>2)) ^ 3) [0..<length xi]"
  let ?F = "concat (map2 (\<lambda>a b. [a, b]) ?dx ?dy)"
  let ?G = "concat (map2 (\<lambda>a b. [a, b]) ?gx ?gy)"
  have ld: "length ?dx = ?N" "length ?dy = ?N" "length ?dx = length ?dy" using len by simp_all
  have lg: "length ?gx = ?N" "length ?gy = ?N" "length ?gx = length ?gy" by simp_all
  have "replicate (length r) (0::real) = replicate (2 * length ?dx) 0"
    using lr ld by simp
  then have field: "assign_step2_from1 (assign_step2 (replicate (length r) 0) ?dx) ?dy = ?F"
    using assign_both_interleaves [OF ld(3), of 0] by simp
  have total: "EP_grad_total ip r = map2 (+) ?F (map (\<lambda>g. g / qe) ?G)"
    by (simp only: EP_grad_total_def xy prod.case Let_def EP_dVdx_def EP_dVdy_def ev_def field
        EP_grad_Vee_closed [OF len])
  have lF: "length ?F = 2 * ?N" using length_interleave [OF ld(3)] ld by simp
  have lG: "length ?G = 2 * ?N" using length_interleave [OF lg(3)] lg by simp
  have nth: "EP_grad_total ip r ! j = ?F ! j + ?G ! j / qe" if "j < 2 * ?N" for j
    using that lF lG by (simp add: total)
  have k2: "2 * k < 2 * ?N" "2 * k + 1 < 2 * ?N" using k by simp_all
  have kd: "k < length ?dx" "k < length ?gx" using k ld lg by simp_all
  note nF = nth_interleave [OF ld(3) kd(1)]
  note nG = nth_interleave [OF lg(3) kd(2)]
  show "EP_grad_total ip r ! (2 * k) =
           ip 1 0 (xi ! k) (yi ! k) +
           (\<Sum>a<length xi. if a = k then 0 else
               - 1 * qe\<^sup>2 / (4 * pi * eps0) * (xi ! k - xi ! a)
                 / (sqrt ((xi ! k - xi ! a)\<^sup>2 + (yi ! a - yi ! k)\<^sup>2)) ^ 3) / qe"
    using k by (simp only: nth [OF k2(1)] nF nG) (simp add: len [symmetric] cong: if_cong)
  show "EP_grad_total ip r ! (2 * k + 1) =
           ip 0 1 (xi ! k) (yi ! k) +
           (\<Sum>a<length xi. if a = k then 0 else
               1 * qe\<^sup>2 / (4 * pi * eps0) * (yi ! a - yi ! k)
                 / (sqrt ((xi ! k - xi ! a)\<^sup>2 + (yi ! a - yi ! k)\<^sup>2)) ^ 3) / qe"
    using k by (simp only: nth [OF k2(2)] nF nG) (simp add: len [symmetric] cong: if_cong)
qed

lemma sq_sum_pos:
  fixes a b c d :: real
  shows "a \<noteq> b \<or> c \<noteq> d \<Longrightarrow> 0 < (a - b)\<^sup>2 + (c - d)\<^sup>2"
  by (simp add: sum_power2_gt_zero_iff)

lemma DERIV_normalised_energy:
  fixes S1 S2 :: "real \<Rightarrow> real"
  assumes "DERIV S1 t0 :> d1" and "DERIV S2 t0 :> d2"
  shows "DERIV (\<lambda>t. (qe * S1 t + S2 t) / qe) t0 :> d1 + d2 / qe"
proof -
  have q: "qe \<noteq> 0" by (simp add: qe_def)
  have "DERIV (\<lambda>t. (qe * S1 t + S2 t) / qe) t0 :> (qe * d1 + d2) / qe"
    using assms q by (auto intro!: derivative_eq_intros)
  moreover have "(qe * d1 + d2) / qe = d1 + d2 / qe"
    using q by (simp add: add_divide_distrib)
  ultimately show ?thesis by simp
qed

lemma coulomb_DERIV_x:
  fixes xi :: "real list" and C :: "nat \<Rightarrow> nat \<Rightarrow> real" and V :: "nat \<Rightarrow> real \<Rightarrow> real"
  assumes k: "k < length xi"
    and field: "DERIV (\<lambda>t. V k t) (xi ! k) :> V'"
    and sym: "\<And>a. a < length xi \<Longrightarrow> C k a = C a k"
    and pos: "\<And>a. a < length xi \<Longrightarrow> a \<noteq> k \<Longrightarrow> 0 < (xi ! k - xi ! a)\<^sup>2 + C a k"
  shows "DERIV (\<lambda>t.
           (qe * (\<Sum>i<length xi. V i (xi[k := t] ! i)) +
            (\<Sum>a<length xi. \<Sum>b<length xi. if a = b then 0 else
               1 / 2 * qe\<^sup>2 / (4 * pi * eps0) * 1
                 / sqrt ((xi[k := t] ! b - xi[k := t] ! a)\<^sup>2 + C a b))) / qe)
         (xi ! k)
       :> V' +
           (\<Sum>a<length xi. if a = k then 0 else
               - 1 * qe\<^sup>2 / (4 * pi * eps0) * (xi ! k - xi ! a)
                 / (sqrt ((xi ! k - xi ! a)\<^sup>2 + C a k)) ^ 3) / qe"
proof -
  let ?N = "length xi"
  let ?K = "1 / 2 * qe\<^sup>2 / (4 * pi * eps0)"
  let ?t0 = "xi ! k"
  let ?F = "\<lambda>i t. V i (xi[k := t] ! i)"
  let ?E = "\<lambda>a b t. ?K * 1 / sqrt ((xi[k := t] ! b - xi[k := t] ! a)\<^sup>2 + C a b)"
  let ?D1 = "\<lambda>a. - ?K * (?t0 - xi ! a) / (sqrt ((?t0 - xi ! a)\<^sup>2 + C a k)) ^ 3"
  let ?D2 = "\<lambda>b. ?K * (xi ! b - ?t0) / (sqrt ((xi ! b - ?t0)\<^sup>2 + C k b)) ^ 3"
  have fk: "(\<lambda>t. ?F k t) = (\<lambda>t. V k t)"
    using k by (intro ext) simp
  have S1: "DERIV (\<lambda>t. \<Sum>i<?N. ?F i t) ?t0 :> V'"
  proof (rule DERIV_single_sum [where F = ?F, OF k])
    show "?F i t = ?F i ?t0" if "i < ?N" "i \<noteq> k" for i t using that by simp
    show "DERIV (\<lambda>t. ?F k t) ?t0 :> V'"
      by (subst fk) (rule field)
  qed
  have S2: "DERIV (\<lambda>t. \<Sum>a<?N. \<Sum>b<?N. if a = b then 0 else ?E a b t) ?t0
              :> (\<Sum>a<?N. if a = k then 0 else ?D1 a + ?D2 a)"
  proof (rule DERIV_pair_sum [where E = ?E, OF k])
    show "?E a b t = ?E a b ?t0" if "a < ?N" "b < ?N" "a \<noteq> k" "b \<noteq> k" for a b t
      using that by simp
  next
    fix a assume a: "a < ?N" "a \<noteq> k"
    have eq: "(\<lambda>t. ?E a k t) = (\<lambda>t. ?K * 1 / sqrt ((t - xi ! a)\<^sup>2 + C a k))"
      using a k by (intro ext) simp
    have "0 < (?t0 - xi ! a)\<^sup>2 + C a k"
      using pos [OF a] .
    from DERIV_coulomb_x_col [OF this, of ?K]
    show "DERIV (\<lambda>t. ?E a k t) ?t0 :> ?D1 a" by (subst eq)
  next
    fix b assume b: "b < ?N" "b \<noteq> k"
    have eq: "(\<lambda>t. ?E k b t) = (\<lambda>t. ?K * 1 / sqrt ((xi ! b - t)\<^sup>2 + C k b))"
      using b k by (intro ext) simp
    have "0 < (xi ! b - ?t0)\<^sup>2 + C k b"
      using pos [OF b] sym [OF b(1)] by (simp add: power2_commute [of "xi ! b" ?t0])
    from DERIV_coulomb_x_row [OF this, of ?K]
    show "DERIV (\<lambda>t. ?E k b t) ?t0 :> ?D2 b" by (subst eq)
  qed
  have pair: "?D1 a + ?D2 a = - 1 * qe\<^sup>2 / (4 * pi * eps0) * (?t0 - xi ! a)
                 / (sqrt ((?t0 - xi ! a)\<^sup>2 + C a k)) ^ 3" if "a < ?N" for a
  proof -
    have r: "sqrt ((xi ! a - ?t0)\<^sup>2 + C k a)
               = sqrt ((?t0 - xi ! a)\<^sup>2 + C a k)"
      by (simp only: power2_commute [of "xi ! a" ?t0] sym [OF that])
    have n: "xi ! a - ?t0 = - (?t0 - xi ! a)" by simp
    show ?thesis by (simp only: r) (simp only: n pair_terms)
  qed
  have "(\<Sum>a<?N. if a = k then 0 else ?D1 a + ?D2 a)
          = (\<Sum>a<?N. if a = k then 0 else - 1 * qe\<^sup>2 / (4 * pi * eps0) * (?t0 - xi ! a)
                 / (sqrt ((?t0 - xi ! a)\<^sup>2 + C a k)) ^ 3)"
    by (intro sum.cong refl if_cong pair) simp
  with S2 have S2': "DERIV (\<lambda>t. \<Sum>a<?N. \<Sum>b<?N. if a = b then 0 else ?E a b t) ?t0
              :> (\<Sum>a<?N. if a = k then 0 else - 1 * qe\<^sup>2 / (4 * pi * eps0) * (?t0 - xi ! a)
                 / (sqrt ((?t0 - xi ! a)\<^sup>2 + C a k)) ^ 3)"
    by (simp only:)
  from DERIV_normalised_energy [OF S1 S2'] show ?thesis .
qed

lemma pair_terms_same:
  fixes q e w Q :: real
  shows "(1 / 2 * q / e) * w / Q + (1 / 2 * q / e) * w / Q = 1 * q / e * w / Q"
proof -
  have "(1 / 2 * q / e) * w / Q + (1 / 2 * q / e) * w / Q
          = ((1 / 2 * q / e) * w + (1 / 2 * q / e) * w) / Q"
    by (simp only: add_divide_distrib)
  also have "(1 / 2 * q / e) * w + (1 / 2 * q / e) * w = 1 * q / e * w"
    by (simp add: algebra_simps)
  finally show ?thesis .
qed

lemma DERIV_locally_equal:
  fixes f g :: "real \<Rightarrow> real"
  assumes "DERIV g t0 :> D" and "0 < \<delta>" and "\<And>t. \<bar>t - t0\<bar> < \<delta> \<Longrightarrow> f t = g t"
  shows "DERIV f t0 :> D"
proof -
  have "eventually (\<lambda>t. f t = g t) (nhds t0)"
    unfolding eventually_nhds_metric using assms(2,3) by (auto simp: dist_real_def)
  from DERIV_cong_ev [OF refl this refl] assms(1) show ?thesis by simp
qed

lemma coulomb_DERIV_y:
  fixes xi yi :: "real list" and \<omega> :: "real \<Rightarrow> real" and V :: "nat \<Rightarrow> real \<Rightarrow> real"
  assumes len: "length xi = length yi" and k: "k < length xi"
    and field: "DERIV (\<lambda>t. V k t) (yi ! k) :> V'"
    and loc: "\<And>a. a < length xi \<Longrightarrow> a \<noteq> k \<Longrightarrow>
                \<exists>\<delta>>0. \<forall>t. \<bar>t - yi ! k\<bar> < \<delta> \<longrightarrow>
                   \<omega> (yi ! a - t) = \<omega> (yi ! a - yi ! k) - (t - yi ! k) \<and>
                   \<omega> (t - yi ! a) = - \<omega> (yi ! a - yi ! k) + (t - yi ! k)"
    and pos: "\<And>a. a < length xi \<Longrightarrow> a \<noteq> k \<Longrightarrow>
                0 < (xi ! k - xi ! a)\<^sup>2 + (\<omega> (yi ! a - yi ! k))\<^sup>2"
  shows "DERIV (\<lambda>t.
           (qe * (\<Sum>i<length xi. V i (yi[k := t] ! i)) +
            (\<Sum>a<length xi. \<Sum>b<length xi. if a = b then 0 else
               1 / 2 * qe\<^sup>2 / (4 * pi * eps0) * 1
                 / sqrt ((xi ! b - xi ! a)\<^sup>2 + (\<omega> (yi[k := t] ! a - yi[k := t] ! b))\<^sup>2))) / qe)
         (yi ! k)
       :> V' +
           (\<Sum>a<length xi. if a = k then 0 else
               1 * qe\<^sup>2 / (4 * pi * eps0) * \<omega> (yi ! a - yi ! k)
                 / (sqrt ((xi ! k - xi ! a)\<^sup>2 + (\<omega> (yi ! a - yi ! k))\<^sup>2)) ^ 3) / qe"
proof -
  let ?N = "length xi"
  let ?K = "1 / 2 * qe\<^sup>2 / (4 * pi * eps0)"
  let ?t0 = "yi ! k"
  have ky: "k < length yi" using k len by simp
  let ?F = "\<lambda>i t. V i (yi[k := t] ! i)"
  let ?E = "\<lambda>a b t. ?K * 1 / sqrt ((xi ! b - xi ! a)\<^sup>2 + (\<omega> (yi[k := t] ! a - yi[k := t] ! b))\<^sup>2)"
  let ?w = "\<lambda>a. \<omega> (yi ! a - ?t0)"
  let ?D = "\<lambda>a. ?K * ?w a / (sqrt ((xi ! k - xi ! a)\<^sup>2 + (?w a)\<^sup>2)) ^ 3"
  have fk: "(\<lambda>t. ?F k t) = (\<lambda>t. V k t)"
    using ky by (intro ext) simp
  have S1: "DERIV (\<lambda>t. \<Sum>i<?N. ?F i t) ?t0 :> V'"
  proof (rule DERIV_single_sum [where F = ?F, OF k])
    show "?F i t = ?F i ?t0" if "i < ?N" "i \<noteq> k" for i t using that by simp
    show "DERIV (\<lambda>t. ?F k t) ?t0 :> V'"
      by (subst fk) (rule field)
  qed
  have S2: "DERIV (\<lambda>t. \<Sum>a<?N. \<Sum>b<?N. if a = b then 0 else ?E a b t) ?t0
              :> (\<Sum>a<?N. if a = k then 0 else ?D a + ?D a)"
  proof (rule DERIV_pair_sum [where E = ?E, OF k])
    show "?E a b t = ?E a b ?t0" if "a < ?N" "b < ?N" "a \<noteq> k" "b \<noteq> k" for a b t
      using that by simp
  next
    fix a assume a: "a < ?N" "a \<noteq> k"
    from loc [OF a] obtain \<delta> where d: "0 < \<delta>"
      and l: "\<And>t. \<bar>t - ?t0\<bar> < \<delta> \<Longrightarrow> \<omega> (yi ! a - t) = ?w a - (t - ?t0)"
      by blast
    let ?p = "?w a + ?t0"
    let ?g = "\<lambda>t. ?K * 1 / sqrt ((xi ! k - xi ! a)\<^sup>2 + (?p - t)\<^sup>2)"
    have pp: "?p - ?t0 = ?w a" by simp
    have "0 < (xi ! k - xi ! a)\<^sup>2 + (?p - ?t0)\<^sup>2"
      using pos [OF a] by (simp only: pp)
    from DERIV_coulomb_y_col [OF this, of ?K]
    have g: "DERIV ?g ?t0 :> ?D a" by (simp only: pp)
    show "DERIV (\<lambda>t. ?E a k t) ?t0 :> ?D a"
    proof (rule DERIV_locally_equal [OF g d])
      fix t assume "\<bar>t - ?t0\<bar> < \<delta>"
      from l [OF this] have "\<omega> (yi ! a - t) = ?p - t" by simp
      then show "?E a k t = ?g t" using a ky by simp
    qed
  next
    fix b assume b: "b < ?N" "b \<noteq> k"
    from loc [OF b] obtain \<delta> where d: "0 < \<delta>"
      and l: "\<And>t. \<bar>t - ?t0\<bar> < \<delta> \<Longrightarrow> \<omega> (t - yi ! b) = - ?w b + (t - ?t0)"
      by blast
    let ?p = "?t0 + ?w b"
    let ?g = "\<lambda>t. ?K * 1 / sqrt ((xi ! b - xi ! k)\<^sup>2 + (t - ?p)\<^sup>2)"
    have pp: "?t0 - ?p = - ?w b" by simp
    have x: "(xi ! b - xi ! k)\<^sup>2 = (xi ! k - xi ! b)\<^sup>2" by (rule power2_commute)
    have "0 < (xi ! b - xi ! k)\<^sup>2 + (?t0 - ?p)\<^sup>2"
      using pos [OF b] by (simp only: pp x power2_minus)
    from DERIV_coulomb_y_row [OF this, of ?K]
    have "DERIV ?g ?t0 :> - ?K * (- ?w b) / (sqrt ((xi ! k - xi ! b)\<^sup>2 + (?w b)\<^sup>2)) ^ 3"
      by (simp only: pp x power2_minus)
    then have g: "DERIV ?g ?t0 :> ?D b" by simp
    show "DERIV (\<lambda>t. ?E k b t) ?t0 :> ?D b"
    proof (rule DERIV_locally_equal [OF g d])
      fix t assume "\<bar>t - ?t0\<bar> < \<delta>"
      from l [OF this] have "\<omega> (t - yi ! b) = t - ?p" by simp
      then show "?E k b t = ?g t" using b ky by simp
    qed
  qed
  have "(\<Sum>a<?N. if a = k then 0 else ?D a + ?D a)
          = (\<Sum>a<?N. if a = k then 0 else 1 * qe\<^sup>2 / (4 * pi * eps0) * ?w a
                 / (sqrt ((xi ! k - xi ! a)\<^sup>2 + (?w a)\<^sup>2)) ^ 3)"
    by (intro sum.cong refl if_cong pair_terms_same)
  with S2 have S2': "DERIV (\<lambda>t. \<Sum>a<?N. \<Sum>b<?N. if a = b then 0 else ?E a b t) ?t0
              :> (\<Sum>a<?N. if a = k then 0 else 1 * qe\<^sup>2 / (4 * pi * eps0) * ?w a
                 / (sqrt ((xi ! k - xi ! a)\<^sup>2 + (?w a)\<^sup>2)) ^ 3)"
    by (simp only:)
  from DERIV_normalised_energy [OF S1 S2'] show ?thesis .
qed

lemma EP_Rij_nonzero:
  assumes len: "length xi = length yi" and a: "a < length xi" and b: "b < length xi"
    and ab: "a \<noteq> b" and nz: "EP_Rij xi yi eps ! a ! b \<noteq> 0"
  shows "xi ! a \<noteq> xi ! b \<or> yi ! a \<noteq> yi ! b"
proof (rule ccontr)
  assume "\<not> (xi ! a \<noteq> xi ! b \<or> yi ! a \<noteq> yi ! b)"
  then have "EP_Rij xi yi eps ! a ! b = 0"
    using a b ab by (simp add: EP_Rij_tab [OF len])
  with nz show False by simp
qed

lemma EP_grad_total_DERIV:
  assumes ev: "even (length r)" and j: "j < length r" and xy: "r2xy r = (xi, yi)"
    and fx: "\<forall>k<length xi. DERIV (\<lambda>t. ip 0 0 t (yi ! k)) (xi ! k) :> ip 1 0 (xi ! k) (yi ! k)"
    and fy: "\<forall>k<length xi. DERIV (\<lambda>t. ip 0 0 (xi ! k) t) (yi ! k) :> ip 0 1 (xi ! k) (yi ! k)"
    and nz: "\<forall>a<length xi. \<forall>b<length xi. a \<noteq> b \<longrightarrow> EP_Rij xi yi eps_default ! a ! b \<noteq> 0"
  shows "DERIV (\<lambda>t. EP_Vtotal ip (r[j := t])) (r ! j) :> EP_grad_total ip r ! j"
proof -
  let ?N = "length xi"
  have lens: "?N = length r div 2" "length yi = length r div 2"
    using r2xy_lengths [OF ev] xy by simp_all
  then have len: "length xi = length yi" by simp
  have lr: "length r = 2 * ?N" using ev lens by (auto elim!: evenE)
  define k where "k = j div 2"
  have k: "k < ?N" using j lr by (simp add: k_def)
  have kr: "k < length r div 2" using k lens by simp
  have coords: "xi ! k = r ! (2 * k)" "yi ! k = r ! (2 * k + 1)"
    using r2xy_nth [OF ev kr] xy by simp_all
  have dist: "xi ! a \<noteq> xi ! k \<or> yi ! a \<noteq> yi ! k" if "a < ?N" "a \<noteq> k" for a
    using EP_Rij_nonzero [OF len that(1) k that(2)] nz that k by blast
  show ?thesis
  proof (cases "even j")
    case True
    then have j2: "j = 2 * k" by (auto simp: k_def)
    have upd: "r2xy (r[2 * k := t]) = (xi[k := t], yi)" for t
      using r2xy_update_even [OF ev kr, of t] xy by simp
    have eq: "(\<lambda>t. EP_Vtotal ip (r[j := t])) = (\<lambda>t.
           (qe * (\<Sum>i<length xi. ip 0 0 (xi[k := t] ! i) (yi ! i)) +
            (\<Sum>a<length xi. \<Sum>b<length xi. if a = b then 0 else
               1 / 2 * qe\<^sup>2 / (4 * pi * eps0) * 1
                 / sqrt ((xi[k := t] ! b - xi[k := t] ! a)\<^sup>2 + (yi ! a - yi ! b)\<^sup>2))) / qe)"
    proof (intro ext)
      fix t
      have l: "length (xi[k := t]) = length yi" using len by simp
      show "EP_Vtotal ip (r[j := t]) =
           (qe * (\<Sum>i<length xi. ip 0 0 (xi[k := t] ! i) (yi ! i)) +
            (\<Sum>a<length xi. \<Sum>b<length xi. if a = b then 0 else
               1 / 2 * qe\<^sup>2 / (4 * pi * eps0) * 1
                 / sqrt ((xi[k := t] ! b - xi[k := t] ! a)\<^sup>2 + (yi ! a - yi ! b)\<^sup>2))) / qe"
        using EP_Vtotal_closed [OF l upd, of ip] by (simp only: j2 length_list_update)
    qed
    have field: "DERIV (\<lambda>t. ip 0 0 t (yi ! k)) (xi ! k) :> ip 1 0 (xi ! k) (yi ! k)"
      using fx k by simp
    have sym: "(yi ! k - yi ! a)\<^sup>2 = (yi ! a - yi ! k)\<^sup>2" for a
      by (rule power2_commute)
    have pos: "0 < (xi ! k - xi ! a)\<^sup>2 + (yi ! a - yi ! k)\<^sup>2" if "a < ?N" "a \<noteq> k" for a
      using dist [OF that] by (intro sq_sum_pos) auto
    have "DERIV (\<lambda>t. EP_Vtotal ip (r[j := t])) (xi ! k) :> EP_grad_total ip r ! (2 * k)"
      unfolding eq EP_grad_total_closed(1) [OF len xy lr k]
      by (rule coulomb_DERIV_x [where V = "\<lambda>i x. ip 0 0 x (yi ! i)"
            and C = "\<lambda>a b. (yi ! a - yi ! b)\<^sup>2", OF k field sym pos])
    then show ?thesis by (simp only: j2 coords)
  next
    case False
    then have j2: "j = 2 * k + 1" by (auto simp: k_def elim!: oddE)
    have upd: "r2xy (r[2 * k + 1 := t]) = (xi, yi[k := t])" for t
      using r2xy_update_odd [OF ev kr, of t] xy by simp
    have eq: "(\<lambda>t. EP_Vtotal ip (r[j := t])) = (\<lambda>t.
           (qe * (\<Sum>i<length xi. ip 0 0 (xi ! i) (yi[k := t] ! i)) +
            (\<Sum>a<length xi. \<Sum>b<length xi. if a = b then 0 else
               1 / 2 * qe\<^sup>2 / (4 * pi * eps0) * 1
                 / sqrt ((xi ! b - xi ! a)\<^sup>2 + (yi[k := t] ! a - yi[k := t] ! b)\<^sup>2))) / qe)"
    proof (intro ext)
      fix t
      have l: "length xi = length (yi[k := t])" using len by simp
      show "EP_Vtotal ip (r[j := t]) =
           (qe * (\<Sum>i<length xi. ip 0 0 (xi ! i) (yi[k := t] ! i)) +
            (\<Sum>a<length xi. \<Sum>b<length xi. if a = b then 0 else
               1 / 2 * qe\<^sup>2 / (4 * pi * eps0) * 1
                 / sqrt ((xi ! b - xi ! a)\<^sup>2 + (yi[k := t] ! a - yi[k := t] ! b)\<^sup>2))) / qe"
        using EP_Vtotal_closed [OF l upd, of ip] by (simp only: j2)
    qed
    have field: "DERIV (\<lambda>t. ip 0 0 (xi ! k) t) (yi ! k) :> ip 0 1 (xi ! k) (yi ! k)"
      using fy k by simp
    have loc: "\<exists>\<delta>>0. \<forall>t. \<bar>t - yi ! k\<bar> < \<delta> \<longrightarrow>
                 yi ! a - t = yi ! a - yi ! k - (t - yi ! k) \<and>
                 t - yi ! a = - (yi ! a - yi ! k) + (t - yi ! k)" for a
      by (intro exI [of _ 1]) simp
    have pos: "0 < (xi ! k - xi ! a)\<^sup>2 + (yi ! a - yi ! k)\<^sup>2" if "a < ?N" "a \<noteq> k" for a
      using dist [OF that] by (intro sq_sum_pos) auto
    have "DERIV (\<lambda>t. EP_Vtotal ip (r[j := t])) (yi ! k) :> EP_grad_total ip r ! (2 * k + 1)"
      unfolding eq EP_grad_total_closed(2) [OF len xy lr k]
      by (rule coulomb_DERIV_y [where V = "\<lambda>i y. ip 0 0 (xi ! i) y" and \<omega> = "\<lambda>d. d",
            OF len k field loc pos])
    then show ?thesis by (simp only: j2 coords)
  qed
qed

subsection \<open>The minimum image\<close>

lemma wrapd_eqI:
  assumes L: "0 < L" and lo: "- L / 2 \<le> d - L * of_int n" and hi: "d - L * of_int n < L / 2"
  shows "wrapd L d = d - L * of_int n"
proof -
  have "of_int n \<le> d / L + 1 / 2"
    using L lo by (simp add: field_simps)
  moreover have "d / L + 1 / 2 < of_int n + 1"
    using L hi by (simp add: field_simps)
  ultimately have "\<lfloor>d / L + 1 / 2\<rfloor> = n" by (intro floor_unique) simp_all
  then show ?thesis by (simp add: wrapd_def)
qed

lemma wrapd_range:
  assumes L: "0 < L"
  shows "- L / 2 \<le> wrapd L d" and "wrapd L d < L / 2"
proof -
  define q where "q = d / L + 1 / 2"
  have d: "d = L * q - L / 2" using L by (simp add: q_def field_simps)
  have w: "wrapd L d = L * (q - of_int \<lfloor>q\<rfloor>) - L / 2"
    unfolding wrapd_def q_def [symmetric] by (subst d) (simp add: algebra_simps)
  have "0 \<le> q - of_int \<lfloor>q\<rfloor>" by linarith
  then have "0 \<le> L * (q - of_int \<lfloor>q\<rfloor>)" using L by simp
  then show "- L / 2 \<le> wrapd L d" unfolding w by linarith
  have "q - of_int \<lfloor>q\<rfloor> < 1" by linarith
  then have "L * (q - of_int \<lfloor>q\<rfloor>) < L * 1" using L by (intro mult_strict_left_mono)
  then show "wrapd L d < L / 2" unfolding w by linarith
qed

lemma wrapd_repr: "\<exists>n. wrapd L d = d - L * of_int n"
  by (auto simp: wrapd_def)

lemma int_multiple_far:
  fixes L :: real and m :: int
  assumes "0 < L" and "m \<noteq> 0"
  shows "L \<le> \<bar>L * of_int m\<bar>"
proof -
  have "1 \<le> \<bar>m\<bar>" using assms(2) by simp
  then have "(1::real) \<le> \<bar>of_int m\<bar>" by (metis of_int_1_le_iff of_int_abs)
  then have "L * 1 \<le> L * \<bar>of_int m\<bar>" using assms(1) by (intro mult_left_mono) simp_all
  then show ?thesis using assms(1) by (simp add: abs_mult)
qed

lemma representatives:
  fixes L e w :: real and m :: int
  assumes L: "0 < L" and diff: "e - w = L * of_int m" and e: "\<bar>e\<bar> \<le> L / 2" and w: "\<bar>w\<bar> \<le> L / 2"
  shows "e\<^sup>2 = w\<^sup>2" and "\<bar>e\<bar> \<noteq> L / 2 \<Longrightarrow> e = w"
proof -
  have alt: "e = w \<or> (\<bar>e\<bar> = L / 2 \<and> \<bar>w\<bar> = L / 2)"
  proof (cases "m = 0")
    case True
    then show ?thesis using diff by simp
  next
    case False
    from int_multiple_far [OF L this] diff have "L \<le> \<bar>e - w\<bar>" by simp
    then show ?thesis using e w by linarith
  qed
  then have "\<bar>e\<bar> = \<bar>w\<bar>" by auto
  then show "e\<^sup>2 = w\<^sup>2" by (metis power2_abs)
  show "e = w" if "\<bar>e\<bar> \<noteq> L / 2" using alt that by auto
qed

lemma wrapd_minimal:
  fixes L d :: real and i :: int
  assumes L: "0 < L"
  shows "(wrapd L d)\<^sup>2 \<le> (d - L * of_int i)\<^sup>2"
proof -
  let ?n = "\<lfloor>d / L + 1 / 2\<rfloor>"
  let ?w = "wrapd L d"
  have w: "\<bar>?w\<bar> \<le> L / 2" using wrapd_range [OF L, of d] by linarith
  have e: "d - L * of_int i = ?w + L * of_int (?n - i)"
    by (simp add: wrapd_def algebra_simps)
  have "\<bar>?w\<bar> \<le> \<bar>d - L * of_int i\<bar>"
  proof (cases "?n - i = 0")
    case True
    then show ?thesis using e by simp
  next
    case False
    from int_multiple_far [OF L this] have "L \<le> \<bar>L * of_int (?n - i)\<bar>" .
    then show ?thesis using w unfolding e by linarith
  qed
  then show ?thesis by (metis abs_le_square_iff)
qed

lemma wrapd_periodic:
  assumes L: "0 < L"
  shows "wrapd L (d - L * of_int i) = wrapd L d"
proof -
  let ?n = "\<lfloor>d / L + 1 / 2\<rfloor>"
  have "wrapd L (d - L * of_int i) = (d - L * of_int i) - L * of_int (?n - i)"
  proof (rule wrapd_eqI [OF L])
    have eq: "d - L * of_int i - L * of_int (?n - i) = wrapd L d"
      by (simp add: wrapd_def algebra_simps)
    show "- L / 2 \<le> d - L * of_int i - L * of_int (?n - i)"
      unfolding eq by (rule wrapd_range [OF L])
    show "d - L * of_int i - L * of_int (?n - i) < L / 2"
      unfolding eq by (rule wrapd_range [OF L])
  qed
  then show ?thesis by (simp add: wrapd_def algebra_simps)
qed

lemma wrapd_diff:
  assumes L: "0 < L"
  shows "wrapd L (wrapd L a - wrapd L b) = wrapd L (a - b)"
proof -
  let ?na = "\<lfloor>a / L + 1 / 2\<rfloor>" and ?nb = "\<lfloor>b / L + 1 / 2\<rfloor>"
  have "wrapd L a - wrapd L b = (a - b) - L * of_int (?na - ?nb)"
    by (simp add: wrapd_def algebra_simps)
  then show ?thesis using wrapd_periodic [OF L, of "a - b" "?na - ?nb"] by simp
qed

lemma wrapd_neg:
  assumes L: "0 < L" and nt: "wrapd L d \<noteq> - L / 2"
  shows "wrapd L (- d) = - wrapd L d"
proof -
  let ?n = "\<lfloor>d / L + 1 / 2\<rfloor>"
  have eq: "- d - L * of_int (- ?n) = - wrapd L d"
    by (simp add: wrapd_def algebra_simps)
  have "wrapd L (- d) = - d - L * of_int (- ?n)"
  proof (rule wrapd_eqI [OF L])
    show "- L / 2 \<le> - d - L * of_int (- ?n)"
      unfolding eq using wrapd_range(2) [OF L, of d] by linarith
    show "- d - L * of_int (- ?n) < L / 2"
      unfolding eq using wrapd_range(1) [OF L, of d] nt by linarith
  qed
  then show ?thesis by (simp only: eq)
qed

lemma wrapd_neg_sq:
  assumes L: "0 < L"
  shows "(wrapd L (- d))\<^sup>2 = (wrapd L d)\<^sup>2"
proof -
  let ?n = "\<lfloor>d / L + 1 / 2\<rfloor>" and ?m = "\<lfloor>- d / L + 1 / 2\<rfloor>"
  have "wrapd L (- d) - (- wrapd L d) = L * of_int (- ?m - ?n)"
    by (simp add: wrapd_def algebra_simps)
  moreover have "\<bar>wrapd L (- d)\<bar> \<le> L / 2" using wrapd_range [OF L, of "- d"] by linarith
  moreover have "\<bar>- wrapd L d\<bar> \<le> L / 2" using wrapd_range [OF L, of d] by linarith
  ultimately have "(wrapd L (- d))\<^sup>2 = (- wrapd L d)\<^sup>2"
    by (rule representatives(1) [OF L])
  then show ?thesis by simp
qed

lemma wrapd_locally_affine:
  assumes L: "0 < L" and nt: "wrapd L d0 \<noteq> - L / 2"
  shows "\<exists>\<delta>>0. \<forall>d. \<bar>d - d0\<bar> < \<delta> \<longrightarrow> wrapd L d = wrapd L d0 + (d - d0)"
proof -
  let ?w = "wrapd L d0"
  let ?n = "\<lfloor>d0 / L + 1 / 2\<rfloor>"
  let ?\<delta> = "min (?w + L / 2) (L / 2 - ?w)"
  have r: "- L / 2 < ?w" "?w < L / 2" using wrapd_range [OF L, of d0] nt by linarith+
  then have "0 < ?\<delta>" by simp
  moreover have "wrapd L d = ?w + (d - d0)" if "\<bar>d - d0\<bar> < ?\<delta>" for d
  proof -
    have eq: "d - L * of_int ?n = ?w + (d - d0)" by (simp add: wrapd_def)
    have "wrapd L d = d - L * of_int ?n"
    proof (rule wrapd_eqI [OF L])
      show "- L / 2 \<le> d - L * of_int ?n" unfolding eq using that by linarith
      show "d - L * of_int ?n < L / 2" unfolding eq using that by linarith
    qed
    then show ?thesis by (simp only: eq)
  qed
  ultimately show ?thesis by blast
qed

text \<open>The two candidate differences of the source against the minimum image.\<close>

lemma shifted_candidates:
  fixes L ma mb :: real
  assumes L: "0 < L"
    and a: "- L / 2 \<le> ma" "ma < L / 2" and b: "- L / 2 \<le> mb" "mb < L / 2"
  defines "d \<equiv> ma - mb"
    and "s \<equiv> (if ma > 0 then ma - L else ma) - (if mb > 0 then mb - L else mb)"
  shows "\<exists>i. s = d - L * of_int i" and "\<bar>d\<bar> \<le> L / 2 \<or> \<bar>s\<bar> \<le> L / 2"
proof -
  show "\<exists>i. s = d - L * of_int i"
  proof (cases "ma > 0"; cases "mb > 0")
    assume "ma > 0" "mb > 0"
    then have "s = d - L * of_int 0" by (simp add: s_def d_def)
    then show ?thesis ..
  next
    assume "ma > 0" "\<not> mb > 0"
    then have "s = d - L * of_int 1" by (simp add: s_def d_def)
    then show ?thesis ..
  next
    assume "\<not> ma > 0" "mb > 0"
    then have "s = d - L * of_int (- 1)" by (simp add: s_def d_def)
    then show ?thesis ..
  next
    assume "\<not> ma > 0" "\<not> mb > 0"
    then have "s = d - L * of_int 0" by (simp add: s_def d_def)
    then show ?thesis ..
  qed
  show "\<bar>d\<bar> \<le> L / 2 \<or> \<bar>s\<bar> \<le> L / 2"
  proof (cases "ma > 0"; cases "mb > 0")
    assume "ma > 0" "mb > 0"
    then have "\<bar>d\<bar> \<le> L / 2" unfolding d_def using a b by linarith
    then show ?thesis ..
  next
    assume c: "ma > 0" "\<not> mb > 0"
    then have "s = ma - mb - L" by (simp add: s_def)
    then have "\<bar>d\<bar> \<le> L / 2 \<or> \<bar>s\<bar> \<le> L / 2" unfolding d_def using a b c by linarith
    then show ?thesis .
  next
    assume c: "\<not> ma > 0" "mb > 0"
    then have "s = ma - mb + L" by (simp add: s_def)
    then have "\<bar>d\<bar> \<le> L / 2 \<or> \<bar>s\<bar> \<le> L / 2" unfolding d_def using a b c by linarith
    then show ?thesis .
  next
    assume "\<not> ma > 0" "\<not> mb > 0"
    then have "\<bar>d\<bar> \<le> L / 2" unfolding d_def using a b by linarith
    then show ?thesis ..
  qed
qed

lemma min_image_distance:
  fixes L X ya yb :: real
  assumes L: "0 < L"
  defines "ma \<equiv> wrapd L ya" and "mb \<equiv> wrapd L yb"
  shows "min (sqrt (X + (ma - mb)\<^sup>2))
             (sqrt (X + ((if ma > 0 then ma - L else ma) - (if mb > 0 then mb - L else mb))\<^sup>2))
           = sqrt (X + (wrapd L (ya - yb))\<^sup>2)"
proof -
  let ?d = "ma - mb"
  let ?s = "(if ma > 0 then ma - L else ma) - (if mb > 0 then mb - L else mb)"
  let ?w = "wrapd L (ya - yb)"
  have ra: "- L / 2 \<le> ma" "ma < L / 2" and rb: "- L / 2 \<le> mb" "mb < L / 2"
    unfolding ma_def mb_def by (rule wrapd_range [OF L])+
  have w: "?w = wrapd L ?d" unfolding ma_def mb_def by (rule wrapd_diff [OF L, symmetric])
  have wr: "\<bar>?w\<bar> \<le> L / 2" using wrapd_range [OF L, of "ya - yb"] by linarith
  obtain i where i: "?s = ?d - L * of_int i"
    using shifted_candidates(1) [OF L ra rb] by blast
  obtain n where n: "?w = ?d - L * of_int n"
    unfolding w using wrapd_repr by blast
  have ge_d: "?w\<^sup>2 \<le> ?d\<^sup>2"
    unfolding w using wrapd_minimal [OF L, of ?d 0] by simp
  have ge_s: "?w\<^sup>2 \<le> ?s\<^sup>2"
    unfolding w i by (rule wrapd_minimal [OF L])
  have "?d\<^sup>2 = ?w\<^sup>2 \<or> ?s\<^sup>2 = ?w\<^sup>2"
  proof -
    from shifted_candidates(2) [OF L ra rb] consider "\<bar>?d\<bar> \<le> L / 2" | "\<bar>?s\<bar> \<le> L / 2" by blast
    then show ?thesis
    proof cases
      case 1
      have "?d - ?w = L * of_int n" using n by simp
      from representatives(1) [OF L this 1 wr] show ?thesis ..
    next
      case 2
      have "?s - ?w = L * of_int (n - i)" using n i by (simp add: algebra_simps)
      from representatives(1) [OF L this 2 wr] show ?thesis ..
    qed
  qed
  then have "min (?d\<^sup>2) (?s\<^sup>2) = ?w\<^sup>2" using ge_d ge_s by (auto simp: min_def)
  then have "sqrt (X + ?w\<^sup>2) = sqrt (min (X + ?d\<^sup>2) (X + ?s\<^sup>2))"
    by (simp add: min_add_distrib_right)
  also have "\<dots> = min (sqrt (X + ?d\<^sup>2)) (sqrt (X + ?s\<^sup>2))"
    by (simp add: min_def)
  finally show ?thesis by simp
qed

lemma min_image_difference:
  fixes L X ya yb :: real
  assumes L: "0 < L"
  defines "ma \<equiv> wrapd L ya" and "mb \<equiv> wrapd L yb"
  defines "d \<equiv> ma - mb"
    and "s \<equiv> (if ma > 0 then ma - L else ma) - (if mb > 0 then mb - L else mb)"
  assumes nt: "\<bar>if sqrt (X + s\<^sup>2) < sqrt (X + d\<^sup>2) then s else d\<bar> \<noteq> L / 2"
  shows "(if sqrt (X + s\<^sup>2) < sqrt (X + d\<^sup>2) then s else d) = wrapd L (ya - yb)"
proof -
  let ?w = "wrapd L (ya - yb)"
  let ?e = "if sqrt (X + s\<^sup>2) < sqrt (X + d\<^sup>2) then s else d"
  have ra: "- L / 2 \<le> ma" "ma < L / 2" and rb: "- L / 2 \<le> mb" "mb < L / 2"
    unfolding ma_def mb_def by (rule wrapd_range [OF L])+
  have w: "?w = wrapd L d" unfolding d_def ma_def mb_def by (rule wrapd_diff [OF L, symmetric])
  have wr: "\<bar>?w\<bar> \<le> L / 2" using wrapd_range [OF L, of "ya - yb"] by linarith
  obtain i where i: "s = d - L * of_int i"
    using shifted_candidates(1) [OF L ra rb] unfolding s_def d_def by blast
  obtain n where n: "?w = d - L * of_int n"
    unfolding w using wrapd_repr by blast
  have cand: "\<bar>d\<bar> \<le> L / 2 \<or> \<bar>s\<bar> \<le> L / 2"
    using shifted_candidates(2) [OF L ra rb] unfolding s_def d_def .
  have sel: "\<bar>?e\<bar> \<le> L / 2"
  proof (cases "sqrt (X + s\<^sup>2) < sqrt (X + d\<^sup>2)")
    case True
    then have "s\<^sup>2 < d\<^sup>2" by simp
    then have "\<bar>s\<bar> < \<bar>d\<bar>" by (metis abs_le_square_iff not_le)
    with cand True show ?thesis by auto
  next
    case False
    then have "d\<^sup>2 \<le> s\<^sup>2" by simp
    then have "\<bar>d\<bar> \<le> \<bar>s\<bar>" by (metis abs_le_square_iff)
    with cand False show ?thesis by auto
  qed
  have "\<exists>m. ?e - ?w = L * of_int m"
  proof (cases "sqrt (X + s\<^sup>2) < sqrt (X + d\<^sup>2)")
    case True
    have "s - ?w = L * of_int (n - i)" using n i by (simp add: algebra_simps)
    then have "?e - ?w = L * of_int (n - i)" by (simp only: True if_True)
    then show ?thesis ..
  next
    case False
    have "d - ?w = L * of_int n" using n by simp
    then have "?e - ?w = L * of_int n" by (simp only: False if_False)
    then show ?thesis ..
  qed
  then obtain m where "?e - ?w = L * of_int m" ..
  from representatives(2) [OF L this sel wr nt] show ?thesis .
qed

subsection \<open>Closed forms of the periodic variant\<close>

lemma length_map_y_into_domain: "length (map_y_into_domain self y b) = length y"
  by (simp add: map_y_into_domain_def Let_def)

lemma map_y_into_domain_wrapd:
  assumes "0 < box_y_length self"
  shows "map_y_into_domain self yi None = map (wrapd (box_y_length self)) yi"
proof -
  let ?L = "box_y_length self"
  have w: "- ?L / 2 + np_mod (v - (- ?L / 2)) (?L / 2 - (- ?L / 2)) = wrapd ?L v" for v
  proof -
    have l: "?L / 2 - (- ?L / 2) = ?L" by simp
    have q: "(v - (- ?L / 2)) / ?L = v / ?L + 1 / 2"
      using assms by (simp add: field_simps)
    show ?thesis
      unfolding np_mod_def wrapd_def l q by simp
  qed
  show ?thesis
    by (simp only: map_y_into_domain_def option.case Let_def fst_conv snd_conv w)
qed

lemma calculate_Rij_mapped_tab:
  assumes L: "0 < box_y_length self" and len: "length xi = length yi"
  shows "calculate_Rij self xi (map_y_into_domain self yi None)
           = tab (length xi) (length xi)
               (\<lambda>a b. sqrt ((xi ! b - xi ! a)\<^sup>2 + (wrapd (box_y_length self) (yi ! a - yi ! b))\<^sup>2))"
proof -
  let ?L = "box_y_length self"
  let ?ym = "map (wrapd ?L) yi"
  have lm: "length xi = length ?ym" using len by simp
  show ?thesis
    unfolding map_y_into_domain_wrapd [OF L] calculate_Rij_tab [OF lm]
  proof (rule tab_cong)
    fix a b assume "a < length xi" "b < length xi"
    then have n: "?ym ! a = wrapd ?L (yi ! a)" "?ym ! b = wrapd ?L (yi ! b)"
      using len by simp_all
    show "min (sqrt ((xi ! b - xi ! a)\<^sup>2 + (?ym ! a - ?ym ! b)\<^sup>2))
              (sqrt ((xi ! b - xi ! a)\<^sup>2 +
                 ((if ?ym ! a > 0 then ?ym ! a - ?L else ?ym ! a) -
                  (if ?ym ! b > 0 then ?ym ! b - ?L else ?ym ! b))\<^sup>2))
            = sqrt ((xi ! b - xi ! a)\<^sup>2 + (wrapd ?L (yi ! a - yi ! b))\<^sup>2)"
      unfolding n by (rule min_image_distance [OF L])
  qed
qed

lemma copyto_where_tab:
  "copyto_where (tab n m g) (tab n m h) (tab n m c) = tab n m (\<lambda>a b. if c a b then h a b else g a b)"
  by (simp add: copyto_where_def mat_map2_tab)

lemma calculate_YiYj_tab:
  "length xi = length yi \<Longrightarrow>
   calculate_YiYj self xi yi = tab (length xi) (length xi)
     (\<lambda>a b. if sqrt ((xi ! b - xi ! a)\<^sup>2 +
                    ((if yi ! a > 0 then yi ! a - box_y_length self else yi ! a) -
                     (if yi ! b > 0 then yi ! b - box_y_length self else yi ! b))\<^sup>2)
                < sqrt ((xi ! b - xi ! a)\<^sup>2 + (yi ! a - yi ! b)\<^sup>2)
             then (if yi ! a > 0 then yi ! a - box_y_length self else yi ! a) -
                  (if yi ! b > 0 then yi ! b - box_y_length self else yi ! b)
             else yi ! a - yi ! b)"
  by (simp add: calculate_YiYj_def meshgrid_tab np_T_tab sqrt_sq_sum_tab shift_positive_tab
      mat_map2_tab copyto_where_tab)

lemma calculate_YiYj_mapped:
  assumes L: "0 < box_y_length self" and len: "length xi = length yi"
    and a: "a < length xi" and b: "b < length xi"
    and nt: "\<bar>calculate_YiYj self xi (map_y_into_domain self yi None) ! a ! b\<bar> \<noteq> box_y_length self / 2"
  shows "calculate_YiYj self xi (map_y_into_domain self yi None) ! a ! b
           = wrapd (box_y_length self) (yi ! a - yi ! b)"
proof -
  let ?L = "box_y_length self"
  let ?ym = "map (wrapd ?L) yi"
  have lm: "length xi = length ?ym" using len by simp
  have n: "?ym ! a = wrapd ?L (yi ! a)" "?ym ! b = wrapd ?L (yi ! b)"
    using a b len by simp_all
  note e = calculate_YiYj_tab [OF lm, of self] nth_nth_tab [OF a b] n
  from nt show ?thesis
    unfolding map_y_into_domain_wrapd [OF L] e by (rule min_image_difference [OF L])
qed

lemma RS_pair_energy:
  assumes L: "0 < box_y_length self" and len: "length xi = length yi"
  shows "np_sum (fill_diagonal (RS_Vee self xi yi eps) 0) =
     (\<Sum>a<length xi. \<Sum>b<length xi. if a = b then 0 else
         1 / 2 * qe\<^sup>2 / (4 * pi * eps0) * 1
           / sqrt ((xi ! b - xi ! a)\<^sup>2 + (wrapd (box_y_length self) (yi ! a - yi ! b))\<^sup>2))"
  by (simp add: RS_Vee_def calculate_Rij_mapped_tab [OF L len] mat_map_tab fill_diagonal_tab
      np_sum_tab if_distrib cong: if_cong)

lemma RS_Vtotal_closed:
  assumes L: "0 < box_y_length self" and len: "length xi = length yi" and xy: "r2xy r = (xi, yi)"
  shows "RS_Vtotal self r =
     (qe * (\<Sum>i<length xi. interpolator self (xi ! i)) +
      (\<Sum>a<length xi. \<Sum>b<length xi. if a = b then 0 else
         1 / 2 * qe\<^sup>2 / (4 * pi * eps0) * 1
           / sqrt ((xi ! b - xi ! a)\<^sup>2 + (wrapd (box_y_length self) (yi ! a - yi ! b))\<^sup>2))) / qe"
proof -
  have "map (interpolator self) xi = map (\<lambda>i. interpolator self (xi ! i)) [0..<length xi]"
    by (rule nth_equalityI) simp_all
  then have "sum_list (map (interpolator self) xi) = (\<Sum>i<length xi. interpolator self (xi ! i))"
    by (simp only: sum_list_upt)
  then show ?thesis
    by (simp only: RS_Vtotal_def xy prod.case Let_def RS_Velectrostatic_def RS_V_def
        RS_pair_energy [OF L len])
qed

lemma RS_grad_Vee_closed:
  assumes L: "0 < box_y_length self" and len: "length xi = length yi"
  shows "RS_grad_Vee self xi yi eps =
     concat (map2 (\<lambda>gx gy. [gx, gy])
       (map (\<lambda>b. \<Sum>a<length xi. if a = b then 0 else
                 - 1 * qe\<^sup>2 / (4 * pi * eps0) * (xi ! b - xi ! a)
                   / (sqrt ((xi ! b - xi ! a)\<^sup>2 + (wrapd (box_y_length self) (yi ! a - yi ! b))\<^sup>2)) ^ 3)
          [0..<length xi])
       (map (\<lambda>b. \<Sum>a<length xi. if a = b then 0 else
                 1 * qe\<^sup>2 / (4 * pi * eps0)
                   * (calculate_YiYj self xi (map_y_into_domain self yi None) ! a ! b)
                   / (sqrt ((xi ! b - xi ! a)\<^sup>2 + (wrapd (box_y_length self) (yi ! a - yi ! b))\<^sup>2)) ^ 3)
          [0..<length xi]))"
proof -
  let ?N = "length xi"
  let ?L = "box_y_length self"
  let ?ym = "map_y_into_domain self yi None"
  let ?R = "\<lambda>a b. sqrt ((xi ! b - xi ! a)\<^sup>2 + (wrapd ?L (yi ! a - yi ! b))\<^sup>2)"
  have lm: "length xi = length ?ym" using len by (simp add: length_map_y_into_domain)
  obtain Y where Y: "calculate_YiYj self xi ?ym = tab ?N ?N Y"
    using calculate_YiYj_tab [OF lm] by blast
  have Ynth: "calculate_YiYj self xi ?ym ! a ! b = Y a b" if "a < ?N" "b < ?N" for a b
    using that by (simp add: Y)
  let ?gx = "map (\<lambda>b. \<Sum>a<?N. if a = b then 0 else
                 - 1 * qe\<^sup>2 / (4 * pi * eps0) * (xi ! b - xi ! a) / (?R a b) ^ 3) [0..<?N]"
  let ?gy = "map (\<lambda>b. \<Sum>a<?N. if a = b then 0 else
                 1 * qe\<^sup>2 / (4 * pi * eps0) * Y a b / (?R a b) ^ 3) [0..<?N]"
  let ?gy' = "map (\<lambda>b. \<Sum>a<?N. if a = b then 0 else
                 1 * qe\<^sup>2 / (4 * pi * eps0) * (calculate_YiYj self xi ?ym ! a ! b) / (?R a b) ^ 3) [0..<?N]"
  have m: "meshgrid xi ?ym = (tab ?N ?N (\<lambda>a b. xi ! b), tab ?N ?N (\<lambda>a b. ?ym ! a))"
    using meshgrid_tab [of xi ?ym] lm by simp
  have "RS_grad_Vee self xi yi eps = assign_step2_from1 (assign_step2 (replicate (2 * length ?gx) 0) ?gx) ?gy"
    by (simp add: RS_grad_Vee_def m np_T_tab calculate_Rij_mapped_tab [OF L len] Y mat_map2_tab
        fill_diagonal_tab np_sum_axis0_tab if_distrib cong: if_cong)
  also have "\<dots> = concat (map2 (\<lambda>gx gy. [gx, gy]) ?gx ?gy)"
    by (rule assign_both_interleaves) simp
  also have "?gy = ?gy'"
    by (intro map_cong refl sum.cong if_cong) (simp_all add: Ynth)
  finally show ?thesis .
qed

lemma RS_grad_total_closed:
  assumes L: "0 < box_y_length self" and len: "length xi = length yi" and xy: "r2xy r = (xi, yi)"
    and lr: "length r = 2 * length xi" and k: "k < length xi"
  shows "RS_grad_total self r ! (2 * k) =
           derivative self (xi ! k) +
           (\<Sum>a<length xi. if a = k then 0 else
               - 1 * qe\<^sup>2 / (4 * pi * eps0) * (xi ! k - xi ! a)
                 / (sqrt ((xi ! k - xi ! a)\<^sup>2 + (wrapd (box_y_length self) (yi ! a - yi ! k))\<^sup>2)) ^ 3) / qe"
    and "RS_grad_total self r ! (2 * k + 1) =
           0 +
           (\<Sum>a<length xi. if a = k then 0 else
               1 * qe\<^sup>2 / (4 * pi * eps0)
                 * (calculate_YiYj self xi (map_y_into_domain self yi None) ! a ! k)
                 / (sqrt ((xi ! k - xi ! a)\<^sup>2 + (wrapd (box_y_length self) (yi ! a - yi ! k))\<^sup>2)) ^ 3) / qe"
proof -
  let ?N = "length xi"
  let ?L = "box_y_length self"
  let ?R = "\<lambda>a b. sqrt ((xi ! b - xi ! a)\<^sup>2 + (wrapd ?L (yi ! a - yi ! b))\<^sup>2)"
  let ?dx = "map (derivative self) xi" and ?dy = "replicate (length xi) (0::real)"
  let ?gx = "map (\<lambda>b. \<Sum>a<?N. if a = b then 0 else
                 - 1 * qe\<^sup>2 / (4 * pi * eps0) * (xi ! b - xi ! a) / (?R a b) ^ 3) [0..<?N]"
  let ?gy = "map (\<lambda>b. \<Sum>a<?N. if a = b then 0 else
                 1 * qe\<^sup>2 / (4 * pi * eps0)
                   * (calculate_YiYj self xi (map_y_into_domain self yi None) ! a ! b) / (?R a b) ^ 3) [0..<?N]"
  let ?F = "concat (map2 (\<lambda>a b. [a, b]) ?dx ?dy)"
  let ?G = "concat (map2 (\<lambda>a b. [a, b]) ?gx ?gy)"
  have ld: "length ?dx = ?N" "length ?dy = ?N" "length ?dx = length ?dy" by simp_all
  have lg: "length ?gx = ?N" "length ?gy = ?N" "length ?gx = length ?gy" by simp_all
  have "replicate (length r) (0::real) = replicate (2 * length ?dx) 0"
    using lr ld by simp
  then have field: "assign_step2_from1 (assign_step2 (replicate (length r) 0) ?dx) ?dy = ?F"
    using assign_both_interleaves [OF ld(3), of 0] by simp
  have total: "RS_grad_total self r = map2 (+) ?F (map (\<lambda>g. g / qe) ?G)"
    by (simp only: RS_grad_total_def xy prod.case Let_def RS_dVdx_def RS_dVdy_def field
        RS_grad_Vee_closed [OF L len])
  have lF: "length ?F = 2 * ?N" using length_interleave [OF ld(3)] ld by simp
  have lG: "length ?G = 2 * ?N" using length_interleave [OF lg(3)] lg by simp
  have nth: "RS_grad_total self r ! j = ?F ! j + ?G ! j / qe" if "j < 2 * ?N" for j
    using that lF lG by (simp add: total)
  have k2: "2 * k < 2 * ?N" "2 * k + 1 < 2 * ?N" using k by simp_all
  have kd: "k < length ?dx" "k < length ?gx" using k ld lg by simp_all
  note nF = nth_interleave [OF ld(3) kd(1)]
  note nG = nth_interleave [OF lg(3) kd(2)]
  show "RS_grad_total self r ! (2 * k) =
           derivative self (xi ! k) +
           (\<Sum>a<length xi. if a = k then 0 else
               - 1 * qe\<^sup>2 / (4 * pi * eps0) * (xi ! k - xi ! a)
                 / (sqrt ((xi ! k - xi ! a)\<^sup>2 + (wrapd (box_y_length self) (yi ! a - yi ! k))\<^sup>2)) ^ 3) / qe"
    using k by (simp only: nth [OF k2(1)] nF nG) (simp cong: if_cong)
  show "RS_grad_total self r ! (2 * k + 1) =
           0 +
           (\<Sum>a<length xi. if a = k then 0 else
               1 * qe\<^sup>2 / (4 * pi * eps0)
                 * (calculate_YiYj self xi (map_y_into_domain self yi None) ! a ! k)
                 / (sqrt ((xi ! k - xi ! a)\<^sup>2 + (wrapd (box_y_length self) (yi ! a - yi ! k))\<^sup>2)) ^ 3) / qe"
    using k by (simp only: nth [OF k2(2)] nF nG) (simp cong: if_cong)
qed

subsection \<open>The gradient of both variants\<close>

lemma wrapd_both_affine:
  assumes L: "0 < L" and nt: "wrapd L (p - q) \<noteq> - L / 2"
  shows "\<exists>\<delta>>0. \<forall>t. \<bar>t - q\<bar> < \<delta> \<longrightarrow>
           wrapd L (p - t) = wrapd L (p - q) - (t - q) \<and>
           wrapd L (t - p) = - wrapd L (p - q) + (t - q)"
proof -
  let ?w = "wrapd L (p - q)"
  from wrapd_locally_affine [OF L nt] obtain d1 where d1: "0 < d1"
    and a1: "\<And>d. \<bar>d - (p - q)\<bar> < d1 \<Longrightarrow> wrapd L d = ?w + (d - (p - q))"
    by blast
  have n: "wrapd L (q - p) = - ?w"
    using wrapd_neg [OF L nt] by simp
  have "wrapd L (q - p) \<noteq> - L / 2"
    unfolding n using wrapd_range(2) [OF L, of "p - q"] by linarith
  from wrapd_locally_affine [OF L this] obtain d2 where d2: "0 < d2"
    and a2: "\<And>d. \<bar>d - (q - p)\<bar> < d2 \<Longrightarrow> wrapd L d = - ?w + (d - (q - p))"
    unfolding n by blast
  have "0 < min d1 d2" using d1 d2 by simp
  moreover have "wrapd L (p - t) = ?w - (t - q) \<and> wrapd L (t - p) = - ?w + (t - q)"
    if "\<bar>t - q\<bar> < min d1 d2" for t
  proof
    have "\<bar>(p - t) - (p - q)\<bar> < d1" using that by (simp add: abs_if split: if_splits)
    from a1 [OF this] show "wrapd L (p - t) = ?w - (t - q)" by simp
    have "\<bar>(t - p) - (q - p)\<bar> < d2" using that by (simp add: abs_if split: if_splits)
    from a2 [OF this] show "wrapd L (t - p) = - ?w + (t - q)" by simp
  qed
  ultimately show ?thesis by blast
qed

lemma RS_grad_total_DERIV:
  assumes L: "0 < box_y_length self"
    and ev: "even (length r)" and j: "j < length r" and xy: "r2xy r = (xi, yi)"
    and fx: "\<forall>k<length xi. DERIV (interpolator self) (xi ! k) :> derivative self (xi ! k)"
    and nz: "\<forall>a<length xi. \<forall>b<length xi. a \<noteq> b \<longrightarrow>
               calculate_Rij self xi (map_y_into_domain self yi None) ! a ! b \<noteq> 0"
    and nt: "odd j \<longrightarrow> (\<forall>a<length xi. a \<noteq> j div 2 \<longrightarrow>
               \<bar>calculate_YiYj self xi (map_y_into_domain self yi None) ! a ! (j div 2)\<bar>
                 \<noteq> box_y_length self / 2)"
  shows "DERIV (\<lambda>t. RS_Vtotal self (r[j := t])) (r ! j) :> RS_grad_total self r ! j"
proof -
  let ?N = "length xi"
  let ?L = "box_y_length self"
  have lens: "?N = length r div 2" "length yi = length r div 2"
    using r2xy_lengths [OF ev] xy by simp_all
  then have len: "length xi = length yi" by simp
  have lr: "length r = 2 * ?N" using ev lens by (auto elim!: evenE)
  define k where "k = j div 2"
  have k: "k < ?N" using j lr by (simp add: k_def)
  have kr: "k < length r div 2" using k lens by simp
  have coords: "xi ! k = r ! (2 * k)" "yi ! k = r ! (2 * k + 1)"
    using r2xy_nth [OF ev kr] xy by simp_all
  have pos: "0 < (xi ! k - xi ! a)\<^sup>2 + (wrapd ?L (yi ! a - yi ! k))\<^sup>2"
    if a: "a < ?N" "a \<noteq> k" for a
  proof -
    from nz a k have "calculate_Rij self xi (map_y_into_domain self yi None) ! a ! k \<noteq> 0"
      by blast
    then have "sqrt ((xi ! k - xi ! a)\<^sup>2 + (wrapd ?L (yi ! a - yi ! k))\<^sup>2) \<noteq> 0"
      using a k by (simp add: calculate_Rij_mapped_tab [OF L len])
    then have "(xi ! k - xi ! a)\<^sup>2 + (wrapd ?L (yi ! a - yi ! k))\<^sup>2 \<noteq> 0" by simp
    moreover have "0 \<le> (xi ! k - xi ! a)\<^sup>2 + (wrapd ?L (yi ! a - yi ! k))\<^sup>2" by simp
    ultimately show ?thesis by linarith
  qed
  show ?thesis
  proof (cases "even j")
    case True
    then have j2: "j = 2 * k" by (auto simp: k_def)
    have upd: "r2xy (r[2 * k := t]) = (xi[k := t], yi)" for t
      using r2xy_update_even [OF ev kr, of t] xy by simp
    let ?V = "\<lambda>(i::nat) x. interpolator self x"
    let ?C = "\<lambda>a b. (wrapd ?L (yi ! a - yi ! b))\<^sup>2"
    have eq: "(\<lambda>t. RS_Vtotal self (r[j := t])) = (\<lambda>t.
           (qe * (\<Sum>i<length xi. ?V i (xi[k := t] ! i)) +
            (\<Sum>a<length xi. \<Sum>b<length xi. if a = b then 0 else
               1 / 2 * qe\<^sup>2 / (4 * pi * eps0) * 1
                 / sqrt ((xi[k := t] ! b - xi[k := t] ! a)\<^sup>2 + ?C a b))) / qe)"
    proof (intro ext)
      fix t
      have l: "length (xi[k := t]) = length yi" using len by simp
      show "RS_Vtotal self (r[j := t]) =
           (qe * (\<Sum>i<length xi. ?V i (xi[k := t] ! i)) +
            (\<Sum>a<length xi. \<Sum>b<length xi. if a = b then 0 else
               1 / 2 * qe\<^sup>2 / (4 * pi * eps0) * 1
                 / sqrt ((xi[k := t] ! b - xi[k := t] ! a)\<^sup>2 + ?C a b))) / qe"
        using RS_Vtotal_closed [OF L l upd] by (simp only: j2 length_list_update)
    qed
    have sym: "?C k a = ?C a k" for a
      using wrapd_neg_sq [OF L, of "yi ! a - yi ! k"] by simp
    have field: "DERIV (\<lambda>t. ?V k t) (xi ! k) :> derivative self (xi ! k)"
      using fx k by simp
    have "DERIV (\<lambda>t. RS_Vtotal self (r[j := t])) (xi ! k) :> RS_grad_total self r ! (2 * k)"
      unfolding eq RS_grad_total_closed(1) [OF L len xy lr k]
      by (rule coulomb_DERIV_x [where V = ?V and C = ?C, OF k field sym pos])
    then show ?thesis by (simp only: j2 coords)
  next
    case False
    then have j2: "j = 2 * k + 1" by (auto simp: k_def elim!: oddE)
    have upd: "r2xy (r[2 * k + 1 := t]) = (xi, yi[k := t])" for t
      using r2xy_update_odd [OF ev kr, of t] xy by simp
    let ?V = "\<lambda>i (y::real). interpolator self (xi ! i)"
    have eq: "(\<lambda>t. RS_Vtotal self (r[j := t])) = (\<lambda>t.
           (qe * (\<Sum>i<length xi. ?V i (yi[k := t] ! i)) +
            (\<Sum>a<length xi. \<Sum>b<length xi. if a = b then 0 else
               1 / 2 * qe\<^sup>2 / (4 * pi * eps0) * 1
                 / sqrt ((xi ! b - xi ! a)\<^sup>2 + (wrapd ?L (yi[k := t] ! a - yi[k := t] ! b))\<^sup>2))) / qe)"
    proof (intro ext)
      fix t
      have l: "length xi = length (yi[k := t])" using len by simp
      show "RS_Vtotal self (r[j := t]) =
           (qe * (\<Sum>i<length xi. ?V i (yi[k := t] ! i)) +
            (\<Sum>a<length xi. \<Sum>b<length xi. if a = b then 0 else
               1 / 2 * qe\<^sup>2 / (4 * pi * eps0) * 1
                 / sqrt ((xi ! b - xi ! a)\<^sup>2 + (wrapd ?L (yi[k := t] ! a - yi[k := t] ! b))\<^sup>2))) / qe"
        using RS_Vtotal_closed [OF L l upd] by (simp only: j2)
    qed
    have Y: "calculate_YiYj self xi (map_y_into_domain self yi None) ! a ! k
               = wrapd ?L (yi ! a - yi ! k)" if a: "a < ?N" "a \<noteq> k" for a
    proof -
      from nt False a have "\<bar>calculate_YiYj self xi (map_y_into_domain self yi None) ! a ! k\<bar>
                 \<noteq> ?L / 2" by (simp add: k_def)
      from calculate_YiYj_mapped [OF L len a(1) k this] show ?thesis .
    qed
    have notie: "wrapd ?L (yi ! a - yi ! k) \<noteq> - ?L / 2" if a: "a < ?N" "a \<noteq> k" for a
    proof -
      from nt False a have "\<bar>calculate_YiYj self xi (map_y_into_domain self yi None) ! a ! k\<bar>
                 \<noteq> ?L / 2" by (simp add: k_def)
      then have ne: "\<bar>wrapd ?L (yi ! a - yi ! k)\<bar> \<noteq> ?L / 2" unfolding Y [OF a] .
      show ?thesis
      proof
        assume "wrapd ?L (yi ! a - yi ! k) = - ?L / 2"
        then have "\<bar>wrapd ?L (yi ! a - yi ! k)\<bar> = ?L / 2" using L by simp
        with ne show False by simp
      qed
    qed
    have loc: "\<exists>\<delta>>0. \<forall>t. \<bar>t - yi ! k\<bar> < \<delta> \<longrightarrow>
                   wrapd ?L (yi ! a - t) = wrapd ?L (yi ! a - yi ! k) - (t - yi ! k) \<and>
                   wrapd ?L (t - yi ! a) = - wrapd ?L (yi ! a - yi ! k) + (t - yi ! k)"
      if a: "a < ?N" "a \<noteq> k" for a
      by (rule wrapd_both_affine [OF L notie [OF a]])
    have field: "DERIV (\<lambda>t. ?V k t) (yi ! k) :> 0" by simp
    have g: "RS_grad_total self r ! (2 * k + 1) =
           0 + (\<Sum>a<length xi. if a = k then 0 else
               1 * qe\<^sup>2 / (4 * pi * eps0) * wrapd ?L (yi ! a - yi ! k)
                 / (sqrt ((xi ! k - xi ! a)\<^sup>2 + (wrapd ?L (yi ! a - yi ! k))\<^sup>2)) ^ 3) / qe"
    proof -
      have "(\<Sum>a<length xi. if a = k then 0 else
               1 * qe\<^sup>2 / (4 * pi * eps0)
                 * (calculate_YiYj self xi (map_y_into_domain self yi None) ! a ! k)
                 / (sqrt ((xi ! k - xi ! a)\<^sup>2 + (wrapd ?L (yi ! a - yi ! k))\<^sup>2)) ^ 3)
          = (\<Sum>a<length xi. if a = k then 0 else
               1 * qe\<^sup>2 / (4 * pi * eps0) * wrapd ?L (yi ! a - yi ! k)
                 / (sqrt ((xi ! k - xi ! a)\<^sup>2 + (wrapd ?L (yi ! a - yi ! k))\<^sup>2)) ^ 3)"
        by (rule sum.cong [OF refl]) (simp add: Y)
      then show ?thesis by (simp only: RS_grad_total_closed(2) [OF L len xy lr k])
    qed
    have "DERIV (\<lambda>t. RS_Vtotal self (r[j := t])) (yi ! k) :> RS_grad_total self r ! (2 * k + 1)"
      unfolding eq g
      by (rule coulomb_DERIV_y [where V = ?V and \<omega> = "wrapd ?L", OF len k field loc pos])
    then show ?thesis by (simp only: j2 coords)
  qed
qed

lemma kink_not_differentiable:
  fixes f :: "real \<Rightarrow> real"
  assumes K: "0 < K" and f: "\<And>t. \<bar>t - 1\<bar> < 1 \<Longrightarrow> f t = K / min (t + 1) (3 - t)"
  shows "\<not> DERIV f 1 :> D"
proof
  assume D: "DERIV f 1 :> D"
  have f1: "f 1 = K / 2" using f [of 1] by simp
  have g1: "DERIV (\<lambda>t. K / (t + 1)) 1 :> - K / 4"
    by (auto intro!: derivative_eq_intros simp: power2_eq_square)
  have g2: "DERIV (\<lambda>t. K / (3 - t)) 1 :> K / 4"
    by (auto intro!: derivative_eq_intros simp: power2_eq_square)
  have lo: "DERIV (\<lambda>t. f t - K / (t + 1)) 1 :> D - (- K / 4)"
    by (rule DERIV_diff [OF D g1])
  have hi: "DERIV (\<lambda>t. f t - K / (3 - t)) 1 :> D - K / 4"
    by (rule DERIV_diff [OF D g2])
  have "D - (- K / 4) = 0"
  proof (rule DERIV_local_min [OF lo, of 1])
    show "(0::real) < 1" by simp
    show "\<forall>y. \<bar>1 - y\<bar> < 1 \<longrightarrow> f 1 - K / (1 + 1) \<le> f y - K / (y + 1)"
    proof (intro allI impI)
      fix y :: real assume y: "\<bar>1 - y\<bar> < 1"
      then have r: "0 < y" "y < 2" by (simp_all add: abs_if split: if_splits)
      have fy: "f y = K / min (y + 1) (3 - y)" using y by (intro f) simp
      have "K / (y + 1) \<le> K / min (y + 1) (3 - y)"
        using K r by (intro divide_left_mono mult_pos_pos) (simp_all add: min_def)
      then show "f 1 - K / (1 + 1) \<le> f y - K / (y + 1)" by (simp add: f1 fy)
    qed
  qed
  moreover have "D - K / 4 = 0"
  proof (rule DERIV_local_min [OF hi, of 1])
    show "(0::real) < 1" by simp
    show "\<forall>y. \<bar>1 - y\<bar> < 1 \<longrightarrow> f 1 - K / (3 - 1) \<le> f y - K / (3 - y)"
    proof (intro allI impI)
      fix y :: real assume y: "\<bar>1 - y\<bar> < 1"
      then have r: "0 < y" "y < 2" by (simp_all add: abs_if split: if_splits)
      have fy: "f y = K / min (y + 1) (3 - y)" using y by (intro f) simp
      have "K / (3 - y) \<le> K / min (y + 1) (3 - y)"
        using K r by (intro divide_left_mono mult_pos_pos) (simp_all add: min_def)
      then show "f 1 - K / (3 - 1) \<le> f y - K / (3 - y)" by (simp add: f1 fy)
    qed
  qed
  ultimately show False using K by simp
qed

lemma example_box: "0 < box_y_length example_solver" "box_y_length example_solver = 4"
  by (simp_all add: example_solver_def)

lemma example_field:
  "DERIV (interpolator example_solver) x :> derivative example_solver x"
  unfolding example_solver_def by (auto intro!: derivative_eq_intros)

lemma wrapd_near_half:
  assumes "\<bar>t - 1\<bar> < 1"
  shows "\<bar>wrapd 4 (t + 1)\<bar> = min (t + 1) (3 - t)"
proof (cases "t < 1")
  case True
  have "wrapd 4 (t + 1) = (t + 1) - 4 * of_int 0"
    using assms True by (intro wrapd_eqI) (simp_all add: abs_if split: if_splits)
  then show ?thesis using assms True by (simp add: abs_if min_def split: if_splits)
next
  case False
  have "wrapd 4 (t + 1) = (t + 1) - 4 * of_int 1"
    using assms False by (intro wrapd_eqI) (simp_all add: abs_if split: if_splits)
  then show ?thesis using assms False by (simp add: abs_if min_def split: if_splits)
qed

lemma tie_energy:
  "RS_Vtotal example_solver (tie_position[1 := t]) = qe / (4 * pi * eps0) / \<bar>wrapd 4 (t + 1)\<bar>"
proof -
  have q: "qe \<noteq> 0" by (simp add: qe_def)
  have u: "tie_position[1 := t] = [0, t, 0, - 1]" by (simp add: tie_position_def)
  have xy: "r2xy [0, t, 0, - 1] = ([0, 0], [t, - 1])" by (rule r2xy_two)
  have l: "length [0, 0 :: real] = length [t, - 1]" by simp
  have n: "sqrt ((wrapd 4 (- 1 - t))\<^sup>2) = \<bar>wrapd 4 (t + 1)\<bar>"
    using wrapd_neg_sq [of 4 "t + 1"] by (simp add: algebra_simps)
  have p: "sqrt ((wrapd 4 (t + 1))\<^sup>2) = \<bar>wrapd 4 (t + 1)\<bar>" by simp
  have "RS_Vtotal example_solver [0, t, 0, - 1] =
     (qe * (\<Sum>i<length [0, 0 :: real]. interpolator example_solver ([0, 0] ! i)) +
      (\<Sum>a<length [0, 0 :: real]. \<Sum>b<length [0, 0 :: real]. if a = b then 0 else
         1 / 2 * qe\<^sup>2 / (4 * pi * eps0) * 1
           / sqrt (([0, 0] ! b - [0, 0] ! a)\<^sup>2
               + (wrapd (box_y_length example_solver) ([t, - 1] ! a - [t, - 1] ! b))\<^sup>2))) / qe"
    by (rule RS_Vtotal_closed [OF example_box(1) l xy])
  also have "\<dots> = (1 / 2 * qe\<^sup>2 / (4 * pi * eps0) * 1 / sqrt ((wrapd 4 (t + 1))\<^sup>2) +
                   1 / 2 * qe\<^sup>2 / (4 * pi * eps0) * 1 / sqrt ((wrapd 4 (- 1 - t))\<^sup>2)) / qe"
    by (simp add: example_box(2) lessThan_Suc) (simp add: example_solver_def)
  also have "\<dots> = qe / (4 * pi * eps0) / \<bar>wrapd 4 (t + 1)\<bar>"
    unfolding n p using q by (simp add: power2_eq_square field_simps)
  finally show ?thesis by (simp only: u)
qed

lemma tie_not_differentiable:
  "\<not> DERIV (\<lambda>t. RS_Vtotal example_solver (tie_position[1 := t])) (tie_position ! 1) :> D"
proof -
  have K: "0 < qe / (4 * pi * eps0)" by (simp add: qe_def eps0_def)
  have "\<not> DERIV (\<lambda>t. RS_Vtotal example_solver (tie_position[1 := t])) 1 :> D"
  proof (rule kink_not_differentiable [OF K])
    fix t :: real assume "\<bar>t - 1\<bar> < 1"
    then show "RS_Vtotal example_solver (tie_position[1 := t])
                 = qe / (4 * pi * eps0) / min (t + 1) (3 - t)"
      by (simp only: tie_energy wrapd_near_half)
  qed
  moreover have "tie_position ! 1 = 1" by (simp add: tie_position_def)
  ultimately show ?thesis by simp
qed


lemma wrapd_4_values:
  "wrapd 4 0 = 0" "wrapd 4 1 = 1" "wrapd 4 (- 1) = - 1" "wrapd 4 2 = - 2" "wrapd 4 (- 2) = - 2"
proof -
  have "wrapd 4 0 = 0 - 4 * of_int 0" by (rule wrapd_eqI) simp_all
  then show "wrapd 4 0 = 0" by simp
  have "wrapd 4 1 = 1 - 4 * of_int 0" by (rule wrapd_eqI) simp_all
  then show "wrapd 4 1 = 1" by simp
  have "wrapd 4 (- 1) = - 1 - 4 * of_int 0" by (rule wrapd_eqI) simp_all
  then show "wrapd 4 (- 1) = - 1" by simp
  have "wrapd 4 2 = 2 - 4 * of_int 1" by (rule wrapd_eqI) simp_all
  then show "wrapd 4 2 = - 2" by simp
  have "wrapd 4 (- 2) = - 2 - 4 * of_int 0" by (rule wrapd_eqI) simp_all
  then show "wrapd 4 (- 2) = - 2" by simp
qed

lemma tie_distances:
  "calculate_Rij example_solver [0, 0] (map_y_into_domain example_solver [1, - 1] None) ! 0 ! 1 = 2"
  "calculate_Rij example_solver [0, 0] (map_y_into_domain example_solver [1, - 1] None) ! 1 ! 0 = 2"
proof -
  have l: "length [0, 0 :: real] = length [1, - 1 :: real]" by simp
  note t = calculate_Rij_mapped_tab [OF example_box(1) l]
  show "calculate_Rij example_solver [0, 0] (map_y_into_domain example_solver [1, - 1] None) ! 0 ! 1 = 2"
    by (simp add: t example_box(2) wrapd_4_values)
  show "calculate_Rij example_solver [0, 0] (map_y_into_domain example_solver [1, - 1] None) ! 1 ! 0 = 2"
    by (simp add: t example_box(2) wrapd_4_values)
qed

lemma tie_difference:
  "\<bar>calculate_YiYj example_solver [0, 0] (map_y_into_domain example_solver [1, - 1] None) ! 1 ! 0\<bar>
     = box_y_length example_solver / 2"
proof -
  have m: "map_y_into_domain example_solver [1, - 1] None = [1, - 1]"
    by (simp add: map_y_into_domain_wrapd [OF example_box(1)] example_box(2) wrapd_4_values)
  have l: "length [0, 0 :: real] = length [1, - 1 :: real]" by simp
  show ?thesis
    unfolding m by (simp add: calculate_YiYj_tab [OF l] example_box(2))
qed

lemma two_apart_distances:
  "\<forall>a<length [0, 1 :: real]. \<forall>b<length [0, 1 :: real]. a \<noteq> b \<longrightarrow>
     calculate_Rij example_solver [0, 1] (map_y_into_domain example_solver [0, 1] None) ! a ! b \<noteq> 0"
proof (intro allI impI)
  fix a b :: nat
  assume a: "a < length [0, 1 :: real]" and b: "b < length [0, 1 :: real]" and ab: "a \<noteq> b"
  have l: "length [0, 1 :: real] = length [0, 1 :: real]" by simp
  from a b ab have "a = 0 \<and> b = 1 \<or> a = 1 \<and> b = 0" by auto
  then have x: "([0, 1 :: real] ! b - [0, 1] ! a)\<^sup>2 = 1" by auto
  have "0 < 1 + (wrapd 4 ([0, 1] ! a - [0, 1] ! b))\<^sup>2"
    by (rule add_pos_nonneg) simp_all
  then have nz: "sqrt (1 + (wrapd 4 ([0, 1] ! a - [0, 1] ! b))\<^sup>2) \<noteq> 0" by simp
  have "calculate_Rij example_solver [0, 1] (map_y_into_domain example_solver [0, 1] None) ! a ! b
          = sqrt (1 + (wrapd 4 ([0, 1] ! a - [0, 1] ! b))\<^sup>2)"
    by (simp only: calculate_Rij_mapped_tab [OF example_box(1) l] nth_nth_tab [OF a b] x
        example_box(2))
  with nz show "calculate_Rij example_solver [0, 1] (map_y_into_domain example_solver [0, 1] None)
               ! a ! b \<noteq> 0"
    by simp
qed

lemma two_apart_no_tie:
  "odd (1::nat) \<longrightarrow> (\<forall>a<length [0, 1 :: real]. a \<noteq> 1 div 2 \<longrightarrow>
     \<bar>calculate_YiYj example_solver [0, 1] (map_y_into_domain example_solver [0, 1] None)
        ! a ! (1 div 2)\<bar> \<noteq> box_y_length example_solver / 2)"
proof (intro allI impI)
  fix a :: nat
  assume a: "a < length [0, 1 :: real]" and n: "a \<noteq> 1 div 2"
  then have a1: "a = 1" by auto
  have m: "map_y_into_domain example_solver [0, 1] None = [0, 1]"
    by (simp add: map_y_into_domain_wrapd [OF example_box(1)] example_box(2) wrapd_4_values)
  have l: "length [0, 1 :: real] = length [0, 1 :: real]" by simp
  show "\<bar>calculate_YiYj example_solver [0, 1] (map_y_into_domain example_solver [0, 1] None)
        ! a ! (1 div 2)\<bar> \<noteq> box_y_length example_solver / 2"
    unfolding m a1 by (simp add: calculate_YiYj_tab [OF l] example_box(2))
qed

lemma pair_on_x_axis_distances:
  assumes "0 < d"
  shows "\<forall>a<length [0, d]. \<forall>b<length [0, d]. a \<noteq> b \<longrightarrow> EP_Rij [0, d] [0, 0] eps ! a ! b \<noteq> 0"
proof (intro allI impI)
  fix a b :: nat
  assume a: "a < length [0, d]" and b: "b < length [0, d]" and ab: "a \<noteq> b"
  have l: "length [0, d] = length [0, 0 :: real]" by simp
  from a b ab have "a = 0 \<and> b = 1 \<or> a = 1 \<and> b = 0" by auto
  then show "EP_Rij [0, d] [0, 0] eps ! a ! b \<noteq> 0"
    using assms by (auto simp: EP_Rij_tab [OF l])
qed

lemma two_charges_distances:
  "\<forall>a<length [0, 1 / 10 ^ 6 :: real]. \<forall>b<length [0, 1 / 10 ^ 6 :: real]. a \<noteq> b \<longrightarrow>
     EP_Rij [0, 1 / 10 ^ 6] [0, 0] eps_default ! a ! b \<noteq> 0"
  by (rule pair_on_x_axis_distances) simp

text \<open>
  Claim C1, as stated, for the periodic variant.  It fails where two charges are half
  the domain length apart in \<open>y\<close>.  On the concrete solver, whose field is
  differentiable everywhere, the two charges at \<open>(0, 1)\<close> and \<open>(0, -1)\<close> have the
  distance 2, not zero; but as a function of the \<open>y\<close>-coordinate of the first charge
  the energy is \<open>K / min (t + 1) (3 - t)\<close> around \<open>t = 1\<close>, with a kink at 1: it has no
  derivative there at all, so component 1 of \<^verbatim>\<open>grad_total\<close> is not its derivative.
  The entry of \<^verbatim>\<open>calculate_YiYj\<close> for the pair is half the domain length in
  absolute value.
\<close>

theorem periodic_gradient_counterexample:
  "even (length tie_position) \<and> 1 < length tie_position \<and>
   r2xy tie_position = ([0, 0], [1, - 1]) \<and>
   (\<forall>x. DERIV (interpolator example_solver) x :> derivative example_solver x) \<and>
   calculate_Rij example_solver [0, 0] (map_y_into_domain example_solver [1, - 1] None) ! 0 ! 1 = 2 \<and>
   calculate_Rij example_solver [0, 0] (map_y_into_domain example_solver [1, - 1] None) ! 1 ! 0 = 2 \<and>
   \<not> DERIV (\<lambda>t. RS_Vtotal example_solver (tie_position[1 := t])) (tie_position ! 1)
         :> RS_grad_total example_solver tie_position ! 1 \<and>
   (\<forall>D. \<not> DERIV (\<lambda>t. RS_Vtotal example_solver (tie_position[1 := t])) (tie_position ! 1) :> D) \<and>
   \<bar>calculate_YiYj example_solver [0, 0] (map_y_into_domain example_solver [1, - 1] None) ! 1 ! 0\<bar>
     = box_y_length example_solver / 2"
proof (intro conjI allI)
  show "even (length tie_position)" "1 < length tie_position"
    by (simp_all add: tie_position_def)
  show "r2xy tie_position = ([0, 0], [1, - 1])"
    unfolding tie_position_def by (rule r2xy_two)
  show "DERIV (interpolator example_solver) x :> derivative example_solver x" for x
    by (rule example_field)
qed (rule tie_distances tie_not_differentiable tie_difference)+

text \<open>
  Claim C1, amended.  For a position vector \<open>r\<close> of even length, decoded into \<open>xi\<close>
  and \<open>yi\<close>, and every coordinate \<open>j\<close> of it: \<^verbatim>\<open>grad_total(r)[j]\<close> is the derivative
  of \<^verbatim>\<open>Vtotal\<close> in that coordinate,
  \<^item> for the unconstrained variant, if at each charge the two partial derivatives
    that the spline reports are the derivatives of the spline, and no two charges
    coincide (every off-diagonal entry of the distance matrix is not zero);
  \<^item> for the periodic variant, if the domain length is positive, at each charge
    the derivative that the spline reports is the derivative of the spline, every
    off-diagonal entry of \<^verbatim>\<open>calculate_Rij\<close> is not zero, and, for a \<open>y\<close>-coordinate
    (\<open>j\<close> odd), no other charge is half the domain length away from the charge
    \<open>j div 2\<close> in \<open>y\<close>: no entry of \<^verbatim>\<open>calculate_YiYj\<close> in its column has the absolute
    value \<open>box_y_length / 2\<close>.
  Over the reals.
\<close>

theorem gradient_is_derivative:
  "(even (length r) \<and> j < length r \<and> r2xy r = (xi, yi) \<and>
     (\<forall>k<length xi. DERIV (\<lambda>t. ip 0 0 t (yi ! k)) (xi ! k) :> ip 1 0 (xi ! k) (yi ! k)) \<and>
     (\<forall>k<length xi. DERIV (\<lambda>t. ip 0 0 (xi ! k) t) (yi ! k) :> ip 0 1 (xi ! k) (yi ! k)) \<and>
     (\<forall>a<length xi. \<forall>b<length xi. a \<noteq> b \<longrightarrow> EP_Rij xi yi eps_default ! a ! b \<noteq> 0) \<longrightarrow>
     DERIV (\<lambda>t. EP_Vtotal ip (r[j := t])) (r ! j) :> EP_grad_total ip r ! j) \<and>
   (0 < box_y_length self \<and> even (length r) \<and> j < length r \<and> r2xy r = (xi, yi) \<and>
     (\<forall>k<length xi. DERIV (interpolator self) (xi ! k) :> derivative self (xi ! k)) \<and>
     (\<forall>a<length xi. \<forall>b<length xi. a \<noteq> b \<longrightarrow>
        calculate_Rij self xi (map_y_into_domain self yi None) ! a ! b \<noteq> 0) \<and>
     (odd j \<longrightarrow> (\<forall>a<length xi. a \<noteq> j div 2 \<longrightarrow>
        \<bar>calculate_YiYj self xi (map_y_into_domain self yi None) ! a ! (j div 2)\<bar>
          \<noteq> box_y_length self / 2)) \<longrightarrow>
     DERIV (\<lambda>t. RS_Vtotal self (r[j := t])) (r ! j) :> RS_grad_total self r ! j)"
proof (intro conjI impI)
  assume "even (length r) \<and> j < length r \<and> r2xy r = (xi, yi) \<and>
     (\<forall>k<length xi. DERIV (\<lambda>t. ip 0 0 t (yi ! k)) (xi ! k) :> ip 1 0 (xi ! k) (yi ! k)) \<and>
     (\<forall>k<length xi. DERIV (\<lambda>t. ip 0 0 (xi ! k) t) (yi ! k) :> ip 0 1 (xi ! k) (yi ! k)) \<and>
     (\<forall>a<length xi. \<forall>b<length xi. a \<noteq> b \<longrightarrow> EP_Rij xi yi eps_default ! a ! b \<noteq> 0)"
  then show "DERIV (\<lambda>t. EP_Vtotal ip (r[j := t])) (r ! j) :> EP_grad_total ip r ! j"
    by (intro EP_grad_total_DERIV [of r j xi yi ip]) simp_all
next
  assume "0 < box_y_length self \<and> even (length r) \<and> j < length r \<and> r2xy r = (xi, yi) \<and>
     (\<forall>k<length xi. DERIV (interpolator self) (xi ! k) :> derivative self (xi ! k)) \<and>
     (\<forall>a<length xi. \<forall>b<length xi. a \<noteq> b \<longrightarrow>
        calculate_Rij self xi (map_y_into_domain self yi None) ! a ! b \<noteq> 0) \<and>
     (odd j \<longrightarrow> (\<forall>a<length xi. a \<noteq> j div 2 \<longrightarrow>
        \<bar>calculate_YiYj self xi (map_y_into_domain self yi None) ! a ! (j div 2)\<bar>
          \<noteq> box_y_length self / 2))"
  then show "DERIV (\<lambda>t. RS_Vtotal self (r[j := t])) (r ! j) :> RS_grad_total self r ! j"
    by (intro RS_grad_total_DERIV [of self r j xi yi]) simp_all
qed


theorem gradient_is_derivative_witness:
  "DERIV (\<lambda>t. EP_Vtotal zero_field (two_charges[0 := t])) (two_charges ! 0)
     :> EP_grad_total zero_field two_charges ! 0 \<and>
   DERIV (\<lambda>t. RS_Vtotal example_solver ([0, 0, 1, 1][1 := t])) ([0, 0, 1, 1] ! 1)
     :> RS_grad_total example_solver [0, 0, 1, 1] ! 1"
proof
  have e: "even (length two_charges)" and j: "0 < length two_charges"
    by (simp_all add: two_charges_def)
  have r: "r2xy two_charges = ([0, 1 / 10 ^ 6], [0, 0])"
    unfolding two_charges_def by (rule r2xy_two)
  have fx: "\<forall>k<length [0, 1 / 10 ^ 6 :: real].
      DERIV (\<lambda>t. zero_field 0 0 t ([0, 0] ! k)) ([0, 1 / 10 ^ 6] ! k)
        :> zero_field 1 0 ([0, 1 / 10 ^ 6] ! k) ([0, 0] ! k)"
    by (simp add: zero_field_def)
  have fy: "\<forall>k<length [0, 1 / 10 ^ 6 :: real].
      DERIV (\<lambda>t. zero_field 0 0 ([0, 1 / 10 ^ 6] ! k) t) ([0, 0] ! k)
        :> zero_field 0 1 ([0, 1 / 10 ^ 6] ! k) ([0, 0] ! k)"
    by (simp add: zero_field_def)
  note inst = gradient_is_derivative [where r = two_charges and j = 0
      and xi = "[0, 1 / 10 ^ 6]" and yi = "[0, 0]" and ip = zero_field, THEN conjunct1]
  show "DERIV (\<lambda>t. EP_Vtotal zero_field (two_charges[0 := t])) (two_charges ! 0)
     :> EP_grad_total zero_field two_charges ! 0"
    by (rule inst [THEN mp]) (intro conjI e j r fx fy two_charges_distances)
next
  have e: "even (length [0, 0, 1, 1 :: real])" and j: "1 < length [0, 0, 1, 1 :: real]"
    by simp_all
  have r: "r2xy [0, 0, 1, 1 :: real] = ([0, 1], [0, 1])" by (rule r2xy_two)
  have fx: "\<forall>k<length [0, 1 :: real].
      DERIV (interpolator example_solver) ([0, 1] ! k) :> derivative example_solver ([0, 1] ! k)"
    by (intro allI impI example_field)
  note inst = gradient_is_derivative [where r = "[0, 0, 1, 1]" and j = 1
      and xi = "[0, 1]" and yi = "[0, 1]" and self = example_solver, THEN conjunct2]
  show "DERIV (\<lambda>t. RS_Vtotal example_solver ([0, 0, 1, 1][1 := t])) ([0, 0, 1, 1] ! 1)
     :> RS_grad_total example_solver [0, 0, 1, 1] ! 1"
    by (rule inst [THEN mp])
      (intro conjI example_box(1) e j r fx two_apart_distances two_apart_no_tie)
qed

section \<open>Effects of the helper functions on memory\<close>

lemma length_fold_update:
  "length (foldl (\<lambda>l i. if P i then l[s + i * st := w i] else l) l is) = length l"
  by (induction "is" arbitrary: l) auto

lemma nth_fold_update:
  fixes l :: "'a list"
  assumes "0 < st" and "p < length l"
  shows "foldl (\<lambda>l i. if P i then l[s + i * st := w i] else l) l [0..<k] ! p =
     (if s \<le> p \<and> (p - s) mod st = 0 \<and> (p - s) div st < k \<and> P ((p - s) div st)
      then w ((p - s) div st) else l ! p)"
proof (induction k)
  case 0
  show ?case by simp
next
  case (Suc k)
  let ?L = "foldl (\<lambda>l i. if P i then l[s + i * st := w i] else l) l [0..<k]"
  have len: "p < length ?L" using assms(2) by (simp add: length_fold_update)
  have pos: "p = s + k * st \<longleftrightarrow> s \<le> p \<and> (p - s) mod st = 0 \<and> (p - s) div st = k"
    using assms(1) by (auto simp: algebra_simps)
  show ?case
  proof (cases "p = s + k * st")
    case True
    then have e: "s + k * st = p" by simp
    from True pos have d: "s \<le> p" "(p - s) mod st = 0" "(p - s) div st = k" by simp_all
    from len show ?thesis by (simp add: e d Suc.IH)
  next
    case False
    with pos have "\<not> (s \<le> p \<and> (p - s) mod st = 0 \<and> (p - s) div st = k)" by simp
    with False show ?thesis by (auto simp: Suc.IH less_Suc_eq)
  qed
qed

lemma valid_view_in_range:
  assumes "valid_view m a" and "i < len a"
  shows "start a + i * step a < length (buffers m (buf a))"
proof -
  from assms have "start a + (len a - 1) * step a < length (buffers m (buf a))"
    by (auto simp: valid_view_def)
  moreover from assms(2) have "i * step a \<le> (len a - 1) * step a"
    by (intro mult_le_mono1) simp
  ultimately show ?thesis by linarith
qed

lemma fold_set_item:
  "foldl (\<lambda>m i. if P i then set_item m a i (w i) else m) m is =
     m\<lparr>buffers := (buffers m)(buf a :=
          foldl (\<lambda>l i. if P i then l[start a + i * step a := w i] else l) (buffers m (buf a)) is)\<rparr>"
proof (induction "is" arbitrary: m)
  case Nil
  show ?case by simp
next
  case (Cons i "is")
  let ?g = "\<lambda>l i. if P i then l[start a + i * step a := w i] else l"
  show ?case
  proof (cases "P i")
    case True
    let ?m1 = "set_item m a i (w i)"
    have "foldl (\<lambda>m i. if P i then set_item m a i (w i) else m) m (i # is)
            = ?m1\<lparr>buffers := (buffers ?m1)(buf a := foldl ?g (buffers ?m1 (buf a)) is)\<rparr>"
      using True by (simp only: foldl_Cons if_True Cons.IH)
    also have "\<dots> = m\<lparr>buffers := (buffers m)(buf a :=
                         foldl ?g ((buffers m (buf a))[start a + i * step a := w i]) is)\<rparr>"
      by (simp add: set_item_def)
    also have "\<dots> = m\<lparr>buffers := (buffers m)(buf a := foldl ?g (buffers m (buf a)) (i # is))\<rparr>"
      using True by simp
    finally show ?thesis .
  next
    case False
    then show ?thesis by (simp add: Cons.IH)
  qed
qed

lemma assign_where_eq:
  "assign_where m a cond v =
     m\<lparr>buffers := (buffers m)(buf a :=
          foldl (\<lambda>l i. if cond (contents m a ! i) then l[start a + i * step a := v] else l)
            (buffers m (buf a)) [0..<len a])\<rparr>"
proof -
  have "foldl (\<lambda>m' i. if map cond (contents m a) ! i then set_item m' a i v else m') m [0..<len a]
      = foldl (\<lambda>m' i. if cond (contents m a ! i) then set_item m' a i v else m') m [0..<len a]"
    by (rule foldl_cong) (simp_all add: contents_def)
  then show ?thesis
    by (simp add: assign_where_def Let_def fold_set_item)
qed

lemma assign_where_other:
  "b \<noteq> buf a \<Longrightarrow> buffers (assign_where m a cond v) b = buffers m b"
  "next_buf (assign_where m a cond v) = next_buf m"
  by (simp_all add: assign_where_eq)

lemma valid_view_assign_where:
  "valid_view m a \<Longrightarrow> valid_view (assign_where m a' cond v) a"
  by (auto simp: valid_view_def assign_where_eq length_fold_update)

lemma contents_assign_where:
  assumes "valid_view m a"
  shows "contents (assign_where m a cond v) a = map (\<lambda>y. if cond y then v else y) (contents m a)"
proof (rule nth_equalityI)
  show "length (contents (assign_where m a cond v) a)
          = length (map (\<lambda>y. if cond y then v else y) (contents m a))"
    by (simp add: contents_def)
next
  fix i assume "i < length (contents (assign_where m a cond v) a)"
  then have i: "i < len a" by (simp add: contents_def)
  from assms have st: "0 < step a" by (simp add: valid_view_def)
  have r: "start a + i * step a < length (buffers m (buf a))"
    using assms i by (rule valid_view_in_range)
  have c: "contents m a ! i = buffers m (buf a) ! (start a + i * step a)"
    using i by (simp add: contents_def)
  show "contents (assign_where m a cond v) a ! i
          = map (\<lambda>y. if cond y then v else y) (contents m a) ! i"
  proof -
    have "contents (assign_where m a cond v) a ! i
            = foldl (\<lambda>l i. if cond (contents m a ! i) then l[start a + i * step a := v] else l)
                (buffers m (buf a)) [0..<len a] ! (start a + i * step a)"
      using i by (simp add: contents_def assign_where_eq)
    also have "\<dots> = (if cond (contents m a ! i) then v else buffers m (buf a) ! (start a + i * step a))"
      using i st by (simp add: nth_fold_update [OF st r])
    also have "\<dots> = map (\<lambda>y. if cond y then v else y) (contents m a) ! i"
      using i by (simp add: contents_def)
    finally show ?thesis .
  qed
qed

lemma new_array_effect:
  assumes "new_array m vals = (m1, a)"
  shows "next_buf m1 = Suc (next_buf m)"
    and "a = \<lparr>buf = next_buf m, start = 0, step = 1, len = length vals\<rparr>"
    and "b \<noteq> next_buf m \<Longrightarrow> buffers m1 b = buffers m b"
    and "buffers m1 (next_buf m) = vals"
  using assms by (auto simp: new_array_def)

lemma new_array_view:
  assumes "new_array m vals = (m1, a)" and "valid_view m v"
  shows "valid_view m1 v" and "contents m1 v = contents m v"
  using assms by (auto simp: new_array_def valid_view_def contents_def)

lemma map_into_domain_effect:
  assumes "map_into_domain m xi yi xbounds ybounds = (m', xi', yi')"
  shows "yi' = yi"
    and "b < next_buf m \<Longrightarrow> b \<noteq> buf yi \<Longrightarrow> buffers m' b = buffers m b"
    and "valid_view m yi \<Longrightarrow>
           contents m' yi = map (\<lambda>y. if y < fst ybounds then fst ybounds else y)
                              (map (\<lambda>y. if y > snd ybounds then snd ybounds else y) (contents m yi))"
    and "buf xi' = next_buf m"
proof -
  obtain left_boundary right_boundary where xb: "xbounds = (left_boundary, right_boundary)"
    by (cases xbounds)
  obtain bottom_boundary top_boundary where yb: "ybounds = (bottom_boundary, top_boundary)"
    by (cases ybounds)
  let ?L = "right_boundary - left_boundary"
  let ?vals = "map (\<lambda>x. \<bar>?L - np_mod (x - right_boundary) (2 * ?L)\<bar> + left_boundary) (contents m xi)"
  obtain m1 x1 where na: "new_array m ?vals = (m1, x1)" by (cases "new_array m ?vals")
  let ?m2 = "assign_where m1 yi (\<lambda>y. y > top_boundary) top_boundary"
  let ?m3 = "assign_where ?m2 yi (\<lambda>y. y < bottom_boundary) bottom_boundary"
  from assms have "(?m3, x1, yi) = (m', xi', yi')"
    by (simp only: map_into_domain_def xb yb Let_def prod.case na)
  then have res: "m' = ?m3" "xi' = x1" "yi' = yi"
    by auto
  show "yi' = yi" by fact
  show "buf xi' = next_buf m"
    using new_array_effect(2) [OF na] res by simp
  show "buffers m' b = buffers m b" if "b < next_buf m" "b \<noteq> buf yi"
    using that new_array_effect(3) [OF na, of b] by (simp add: res assign_where_other)
  show "contents m' yi = map (\<lambda>y. if y < fst ybounds then fst ybounds else y)
                              (map (\<lambda>y. if y > snd ybounds then snd ybounds else y) (contents m yi))"
    if v: "valid_view m yi"
  proof -
    note v1 = new_array_view [OF na v]
    have v2: "valid_view ?m2 yi" using v1(1) by (rule valid_view_assign_where)
    have "contents m' yi
            = map (\<lambda>y. if y < bottom_boundary then bottom_boundary else y)
                (map (\<lambda>y. if y > top_boundary then top_boundary else y) (contents m yi))"
      by (simp only: res contents_assign_where [OF v2] contents_assign_where [OF v1(1)] v1(2))
    then show ?thesis by (simp add: yb)
  qed
qed

lemma assign_elems_eq:
  "assign_elems m a vals =
     m\<lparr>buffers := (buffers m)(buf a :=
          foldl (\<lambda>l i. if True then l[start a + i * step a := vals ! i] else l)
            (buffers m (buf a)) [0..<len a])\<rparr>"
  using fold_set_item [of "\<lambda>i. True" a "\<lambda>i. vals ! i" m "[0..<len a]"]
  by (simp add: assign_elems_def)

lemma contents_cong:
  "buffers m' (buf a) = buffers m (buf a) \<Longrightarrow> contents m' a = contents m a"
  by (simp add: contents_def)

lemma assign_elems_other:
  "b \<noteq> buf a \<Longrightarrow> buffers (assign_elems m a vals) b = buffers m b"
  by (simp add: assign_elems_eq)

lemma length_buffer_assign_elems:
  "length (buffers (assign_elems m a vals) (buf a)) = length (buffers m (buf a))"
proof -
  have "buffers (assign_elems m a vals) (buf a)
          = foldl (\<lambda>l i. if True then l[start a + i * step a := vals ! i] else l)
              (buffers m (buf a)) [0..<len a]"
    by (simp only: assign_elems_eq) simp
  then show ?thesis by (simp only: length_fold_update)
qed

lemma nth_buffer_assign_elems:
  assumes "0 < step a" and "p < length (buffers m (buf a))"
  shows "buffers (assign_elems m a vals) (buf a) ! p =
     (if start a \<le> p \<and> (p - start a) mod step a = 0 \<and> (p - start a) div step a < len a
      then vals ! ((p - start a) div step a) else buffers m (buf a) ! p)"
proof -
  have "buffers (assign_elems m a vals) (buf a)
          = foldl (\<lambda>l i. if True then l[start a + i * step a := vals ! i] else l)
              (buffers m (buf a)) [0..<len a]"
    by (simp only: assign_elems_eq) simp
  then show ?thesis
    by (simp only: nth_fold_update [OF assms]) simp
qed

lemma xy2r_mem_effect:
  assumes "xy2r_mem m x y = Inr (m', r)"
  shows "len x = len y"
    and "r = \<lparr>buf = next_buf m, start = 0, step = 1, len = 2 * len x\<rparr>"
    and "b < next_buf m \<Longrightarrow> buffers m' b = buffers m b"
    and "buf x < next_buf m \<Longrightarrow> buf y < next_buf m \<Longrightarrow>
           xy2r (contents m x) (contents m y) = Inr (contents m' r)"
proof -
  from assms show eq: "len x = len y"
    by (simp add: xy2r_mem_def split: if_splits)
  let ?n = "len x"
  let ?nb = "next_buf m"
  obtain m1 r1 where na: "new_array m (replicate (2 * ?n) 0) = (m1, r1)"
    by (cases "new_array m (replicate (2 * ?n) 0)")
  note n = new_array_effect [OF na]
  let ?ev = "view_step2 r1" and ?od = "view_step2_from1 r1"
  let ?m2 = "assign_elems m1 ?ev (contents m1 x)"
  let ?m3 = "assign_elems ?m2 ?od (contents ?m2 y)"
  from assms have "Inr (?m3, r1) = (Inr (m', r) :: error + memory \<times> ndarray)"
    by (simp only: xy2r_mem_def if_P [OF eq] Let_def prod.case na)
  then have res: "m' = ?m3" "r = r1" by auto
  show r: "r = \<lparr>buf = next_buf m, start = 0, step = 1, len = 2 * len x\<rparr>"
    using n(2) res by simp
  have ev: "buf ?ev = ?nb" "start ?ev = 0" "step ?ev = 2" "len ?ev = ?n"
    using n(2) by (simp_all add: view_step2_def)
  have od: "buf ?od = ?nb" "start ?od = 1" "step ?od = 2" "len ?od = ?n"
    using n(2) by (simp_all add: view_step2_from1_def)
  show old: "buffers m' b = buffers m b" if "b < next_buf m" for b
    using that n(3) [of b] by (simp add: res assign_elems_other ev od)
  show "xy2r (contents m x) (contents m y) = Inr (contents m' r)"
    if bx: "buf x < next_buf m" and byy: "buf y < next_buf m"
  proof -
    let ?xs = "contents m x" and ?ys = "contents m y"
    have cx: "contents m1 x = ?xs" using bx n(3) [of "buf x"] by (intro contents_cong) simp
    have cy: "contents ?m2 y = ?ys"
      using byy n(3) [of "buf y"] by (intro contents_cong) (simp add: assign_elems_other ev)
    have lens: "length ?xs = ?n" "length ?ys = ?n" using eq by (simp_all add: contents_def)
    have l1: "length (buffers m1 ?nb) = 2 * ?n" using n(4) by simp
    have l2: "length (buffers ?m2 ?nb) = 2 * ?n"
      using length_buffer_assign_elems [of m1 ?ev "contents m1 x"] l1 by (simp add: ev)
    have "contents m' r = concat (map2 (\<lambda>a b. [a, b]) ?xs ?ys)"
    proof (rule nth_equalityI)
      show "length (contents m' r) = length (concat (map2 (\<lambda>a b. [a, b]) ?xs ?ys))"
        using lens by (simp add: length_interleave r contents_def)
    next
      fix p assume "p < length (contents m' r)"
      then have p: "p < 2 * ?n" by (simp add: r contents_def)
      then have c: "contents m' r ! p = buffers ?m3 ?nb ! p"
        by (simp add: r contents_def res)
      have s3: "buffers ?m3 ?nb ! p =
          (if 1 \<le> p \<and> (p - 1) mod 2 = 0 \<and> (p - 1) div 2 < ?n
           then ?ys ! ((p - 1) div 2) else buffers ?m2 ?nb ! p)"
        using nth_buffer_assign_elems [of ?od p ?m2 "contents ?m2 y"] p l2
        by (simp add: od cy cong: if_cong)
      have s2: "buffers ?m2 ?nb ! p =
          (if p mod 2 = 0 \<and> p div 2 < ?n then ?xs ! (p div 2) else buffers m1 ?nb ! p)"
        using nth_buffer_assign_elems [of ?ev p m1 "contents m1 x"] p l1
        by (simp add: ev cx cong: if_cong)
      show "contents m' r ! p = concat (map2 (\<lambda>a b. [a, b]) ?xs ?ys) ! p"
      proof (cases "even p")
        case True
        then obtain k where k: "p = 2 * k" by (elim evenE)
        with p have kn: "k < ?n" by simp
        have "buffers ?m3 ?nb ! p = ?xs ! k"
          unfolding s3 s2 using kn k by (cases k) simp_all
        with c have "contents m' r ! p = ?xs ! k" by simp
        then show ?thesis
          using nth_interleave [of ?xs ?ys k] kn lens by (simp add: k)
      next
        case False
        then obtain k where k: "p = 2 * k + 1" by (elim oddE)
        with p have kn: "k < ?n" by simp
        have "buffers ?m3 ?nb ! p = ?ys ! k"
          unfolding s3 using kn k by simp
        with c have "contents m' r ! p = ?ys ! k" by simp
        then show ?thesis
          using nth_interleave [of ?xs ?ys k] kn lens by (simp add: k)
      qed
    qed
    moreover have "xy2r ?xs ?ys = Inr (concat (map2 (\<lambda>a b. [a, b]) ?xs ?ys))"
      using lens by (intro xy2r_interleave) simp
    ultimately show ?thesis by simp
  qed
qed

lemma xy2r_mem_error:
  "(\<exists>e. xy2r_mem m x y = Inl e) \<longleftrightarrow> len x \<noteq> len y"
  by (simp add: xy2r_mem_def Let_def split_def)

lemma r2xy_mem_contents:
  "contents m (view_step2 r) = fst (r2xy (contents m r))"
  "contents m (view_step2_from1 r) = snd (r2xy (contents m r))"
proof -
  show "contents m (view_step2 r) = fst (r2xy (contents m r))"
  proof (rule nth_equalityI)
    show "length (contents m (view_step2 r)) = length (fst (r2xy (contents m r)))"
      by (simp add: contents_def view_step2_def r2xy_def length_slice_step2)
  next
    fix k assume "k < length (contents m (view_step2 r))"
    then have k: "k < (len r + 1) div 2" by (simp add: contents_def view_step2_def)
    then have k2: "2 * k < len r" by linarith
    then have "2 * k < length (contents m r)" by (simp add: contents_def)
    from nth_slice_step2 [OF this]
    have "fst (r2xy (contents m r)) ! k = contents m r ! (2 * k)" by (simp add: r2xy_def)
    also have "\<dots> = buffers m (buf r) ! (start r + 2 * k * step r)"
      using k2 by (simp add: contents_def)
    also have "\<dots> = contents m (view_step2 r) ! k"
      using k by (simp add: contents_def view_step2_def algebra_simps)
    finally show "contents m (view_step2 r) ! k = fst (r2xy (contents m r)) ! k" by simp
  qed
  show "contents m (view_step2_from1 r) = snd (r2xy (contents m r))"
  proof (rule nth_equalityI)
    show "length (contents m (view_step2_from1 r)) = length (snd (r2xy (contents m r)))"
      by (simp add: contents_def view_step2_from1_def r2xy_def length_slice_step2)
  next
    fix k assume "k < length (contents m (view_step2_from1 r))"
    then have k: "k < len r div 2" by (simp add: contents_def view_step2_from1_def)
    then have k2: "2 * k + 1 < len r" by linarith
    then have "2 * k + 1 < length (contents m r)" by (simp add: contents_def)
    from nth_slice_drop1 [OF this]
    have "snd (r2xy (contents m r)) ! k = contents m r ! (2 * k + 1)" by (simp add: r2xy_def)
    also have "\<dots> = buffers m (buf r) ! (start r + (2 * k + 1) * step r)"
      using k2 by (simp add: contents_def del: mult_Suc)
    also have "\<dots> = contents m (view_step2_from1 r) ! k"
      using k by (simp add: contents_def view_step2_from1_def algebra_simps)
    finally show "contents m (view_step2_from1 r) ! k = snd (r2xy (contents m r)) ! k" by simp
  qed
qed

lemma example_valid: "valid_view example_memory example_yi"
  by (simp add: valid_view_def example_memory_def example_yi_def)

lemma example_contents: "contents example_memory example_yi = [2]"
  by (simp add: contents_def example_memory_def example_yi_def)

lemma pair_of_triple: "t = (fst t, fst (snd t), snd (snd t))"
  by simp

lemma not_in_cells:
  assumes "0 < step a" and "p \<notin> cells a"
  shows "\<not> (start a \<le> p \<and> (p - start a) mod step a = 0 \<and> (p - start a) div step a < len a)"
proof
  assume h: "start a \<le> p \<and> (p - start a) mod step a = 0 \<and> (p - start a) div step a < len a"
  then have "p = start a + ((p - start a) div step a) * step a"
    by (metis add.commute add.right_neutral div_mult_mod_eq le_add_diff_inverse)
  with h have "p \<in> cells a" unfolding cells_def by blast
  with assms(2) show False by simp
qed

lemma length_buffers_assign_where:
  "length (buffers (assign_where m a cond v) b) = length (buffers m b)"
  by (simp add: assign_where_eq length_fold_update)

lemma nth_assign_where_outside:
  assumes "0 < step a" and "p < length (buffers m (buf a))" and "p \<notin> cells a"
  shows "buffers (assign_where m a cond v) (buf a) ! p = buffers m (buf a) ! p"
proof -
  have "buffers (assign_where m a cond v) (buf a) ! p
          = foldl (\<lambda>l i. if cond (contents m a ! i) then l[start a + i * step a := v] else l)
              (buffers m (buf a)) [0..<len a] ! p"
    by (simp add: assign_where_eq)
  also have "\<dots> = buffers m (buf a) ! p"
    using not_in_cells [OF assms(1,3)]
    by (simp only: nth_fold_update [OF assms(1,2)]) auto
  finally show ?thesis .
qed

lemma assign_where_frame:
  assumes "0 < step a" and "p < length (buffers m b)" and "b \<noteq> buf a \<or> p \<notin> cells a"
  shows "buffers (assign_where m a cond v) b ! p = buffers m b ! p"
proof (cases "b = buf a")
  case True
  with assms show ?thesis by (simp add: nth_assign_where_outside)
next
  case False
  then show ?thesis by (simp add: assign_where_other)
qed

lemma map_into_domain_cells:
  assumes e: "map_into_domain m xi yi xbounds ybounds = (m', xi', yi')"
    and v: "valid_view m yi"
  shows "b < next_buf m \<Longrightarrow> length (buffers m' b) = length (buffers m b)"
    and "b < next_buf m \<Longrightarrow> p < length (buffers m b) \<Longrightarrow> b \<noteq> buf yi \<or> p \<notin> cells yi \<Longrightarrow>
           buffers m' b ! p = buffers m b ! p"
    and "contents m' xi' =
           map (\<lambda>x. \<bar>(snd xbounds - fst xbounds)
                      - np_mod (x - snd xbounds) (2 * (snd xbounds - fst xbounds))\<bar> + fst xbounds)
               (contents m xi)"
proof -
  obtain left_boundary right_boundary where xb: "xbounds = (left_boundary, right_boundary)"
    by (cases xbounds)
  obtain bottom_boundary top_boundary where yb: "ybounds = (bottom_boundary, top_boundary)"
    by (cases ybounds)
  let ?L = "right_boundary - left_boundary"
  let ?vals = "map (\<lambda>x. \<bar>?L - np_mod (x - right_boundary) (2 * ?L)\<bar> + left_boundary) (contents m xi)"
  obtain m1 x1 where na: "new_array m ?vals = (m1, x1)" by (cases "new_array m ?vals")
  let ?m2 = "assign_where m1 yi (\<lambda>y. y > top_boundary) top_boundary"
  let ?m3 = "assign_where ?m2 yi (\<lambda>y. y < bottom_boundary) bottom_boundary"
  from e have "(?m3, x1, yi) = (m', xi', yi')"
    by (simp only: map_into_domain_def xb yb Let_def prod.case na)
  then have res: "m' = ?m3" "xi' = x1" "yi' = yi"
    by auto
  note n = new_array_effect [OF na]
  from v have st: "0 < step yi" and bn: "buf yi < next_buf m" by (simp_all add: valid_view_def)
  show len: "length (buffers m' b) = length (buffers m b)" if "b < next_buf m"
    using that n(3) [of b] by (simp add: res length_buffers_assign_where)
  show "buffers m' b ! p = buffers m b ! p"
    if b: "b < next_buf m" and p: "p < length (buffers m b)" and o: "b \<noteq> buf yi \<or> p \<notin> cells yi"
  proof -
    have b1: "buffers m1 b = buffers m b" using b n(3) [of b] by simp
    have p1: "p < length (buffers m1 b)" using p b1 by simp
    have p2: "p < length (buffers ?m2 b)" using p1 by (simp add: length_buffers_assign_where)
    have "buffers ?m3 b ! p = buffers ?m2 b ! p" using st p2 o by (rule assign_where_frame)
    also have "\<dots> = buffers m1 b ! p" using st p1 o by (rule assign_where_frame)
    finally show ?thesis by (simp add: res b1)
  qed
  show "contents m' xi' =
           map (\<lambda>x. \<bar>(snd xbounds - fst xbounds)
                      - np_mod (x - snd xbounds) (2 * (snd xbounds - fst xbounds))\<bar> + fst xbounds)
               (contents m xi)"
  proof -
    have ne: "next_buf m \<noteq> buf yi" using bn by simp
    have "buffers m' (next_buf m) = ?vals"
      using ne n(4) by (simp add: res assign_where_other)
    then have "contents m' xi' = map (\<lambda>i. ?vals ! i) [0..<length ?vals]"
      using n(2) by (simp add: contents_def res)
    also have "\<dots> = ?vals" by (rule map_nth)
    finally show ?thesis by (simp add: xb)
  qed
qed

lemma contents_unchanged:
  assumes "\<And>p. p \<in> cells v \<Longrightarrow> buffers m' (buf v) ! p = buffers m (buf v) ! p"
  shows "contents m' v = contents m v"
  unfolding contents_def
proof (rule map_cong [OF refl])
  fix i assume "i \<in> set [0..<len v]"
  then have "i \<in> {..<len v}" by simp
  then have "start v + i * step v \<in> cells v" unfolding cells_def by (rule imageI)
  then show "buffers m' (buf v) ! (start v + i * step v) = buffers m (buf v) ! (start v + i * step v)"
    by (rule assms)
qed

lemma map_into_domain_other_views:
  assumes e: "map_into_domain m xi yi xbounds ybounds = (m', xi', yi')"
    and v: "valid_view m yi"
    and b: "buf a < next_buf m"
    and r: "\<forall>p\<in>cells a. p < length (buffers m (buf a))"
    and d: "buf a \<noteq> buf yi \<or> cells a \<inter> cells yi = {}"
  shows "contents m' a = contents m a"
proof (rule contents_unchanged)
  fix p assume p: "p \<in> cells a"
  with r have pl: "p < length (buffers m (buf a))" by blast
  from d p have "buf a \<noteq> buf yi \<or> p \<notin> cells yi" by blast
  with map_into_domain_cells(2) [OF e v b pl]
  show "buffers m' (buf a) ! p = buffers m (buf a) ! p" by blast
qed


lemma shared_views:
  "view_step2 shared_r = \<lparr>buf = 0, start = 0, step = 2, len = 1\<rparr>"
  "view_step2_from1 shared_r = \<lparr>buf = 0, start = 1, step = 2, len = 1\<rparr>"
  by (simp_all add: view_step2_def view_step2_from1_def shared_r_def)

lemma shared_valid: "valid_view shared_memory (view_step2_from1 shared_r)"
  by (simp add: valid_view_def shared_memory_def shared_views)

lemma shared_contents:
  "contents shared_memory shared_r = [0, 2]"
  "contents shared_memory (view_step2 shared_r) = [0]"
  "contents shared_memory (view_step2_from1 shared_r) = [2]"
  by (simp_all add: contents_def shared_memory_def shared_views) (simp add: shared_r_def upt_rec)

lemma shared_cells:
  "cells (view_step2 shared_r) = {0}" "cells (view_step2_from1 shared_r) = {1}"
  by (simp_all add: cells_def shared_views lessThan_Suc)

text \<open>
  Claim C10, as stated: \<^verbatim>\<open>map_into_domain\<close> does not mutate \<^verbatim>\<open>yi\<close>.  It does: with
  the bounds \<open>(-1, 1)\<close> the caller's array \<^verbatim>\<open>yi\<close>, which held \<open>[2]\<close> before the
  call, holds \<open>[1]\<close> after it.
\<close>

theorem map_into_domain_pure_counterexample:
  "contents example_memory example_yi = [2] \<and>
   contents (fst (map_into_domain example_memory example_xi example_yi (- 1, 1) (- 1, 1)))
     example_yi = [1]"
  using map_into_domain_effect(3) [OF pair_of_triple example_valid,
      of example_xi "(- 1, 1)" "(- 1, 1)"]
  by (simp add: example_contents)

text \<open>
  Claim C10, amended.  \<^verbatim>\<open>r2xy\<close> returns the memory as it was, with two views on the
  buffer of its argument that hold what the decoding of its contents is.  \<^verbatim>\<open>xy2r\<close>
  raises exactly on different lengths; when it returns, every buffer that existed
  before the call is unchanged, and the new array holds the encoding of the contents
  of its arguments.  \<^verbatim>\<open>map_into_domain\<close> returns \<^verbatim>\<open>xi\<close> as a new array, which holds
  the mirrored values of the \<^verbatim>\<open>xi\<close> passed in, and the very array \<^verbatim>\<open>yi\<close> it was
  passed, which it overwrites in place: after the call the cells of \<^verbatim>\<open>yi\<close> hold
  their former values clamped to the top and then to the bottom boundary.  It
  writes nowhere else: every buffer keeps its length, and every cell that is not a
  cell of \<^verbatim>\<open>yi\<close> keeps its value, be it in another buffer or in the buffer of
  \<^verbatim>\<open>yi\<close>.  So an array that shares no cell with \<^verbatim>\<open>yi\<close> has the contents it had, in
  particular the \<^verbatim>\<open>xi\<close> of \<^verbatim>\<open>xi, yi = r2xy(r)\<close>, while an array that does share
  cells with \<^verbatim>\<open>yi\<close> (the \<^verbatim>\<open>r\<close> that \<^verbatim>\<open>yi\<close> was decoded from, or an \<^verbatim>\<open>xi\<close> that is the
  same array as \<^verbatim>\<open>yi\<close>) sees the clamped values in those cells.  No function reads
  anything but its arguments and the arrays they refer to: each result is a function
  of those alone.
\<close>

theorem helper_functions_frame:
  "fst (r2xy_mem m r) = m \<and>
   contents m (fst (snd (r2xy_mem m r))) = fst (r2xy (contents m r)) \<and>
   contents m (snd (snd (r2xy_mem m r))) = snd (r2xy (contents m r)) \<and>
   ((\<exists>e. xy2r_mem m x y = Inl e) \<longleftrightarrow> len x \<noteq> len y) \<and>
   (xy2r_mem m x y = Inr (m', a) \<longrightarrow>
      (\<forall>b<next_buf m. buffers m' b = buffers m b) \<and>
      (buf x < next_buf m \<and> buf y < next_buf m \<longrightarrow>
         xy2r (contents m x) (contents m y) = Inr (contents m' a))) \<and>
   (map_into_domain m xi yi xbounds ybounds = (m'', xi', yi') \<longrightarrow>
      yi' = yi \<and> buf xi' = next_buf m \<and>
      (\<forall>b<next_buf m. b \<noteq> buf yi \<longrightarrow> buffers m'' b = buffers m b) \<and>
      (valid_view m yi \<longrightarrow>
         contents m'' yi = map (\<lambda>y. if y < fst ybounds then fst ybounds else y)
                            (map (\<lambda>y. if y > snd ybounds then snd ybounds else y)
                               (contents m yi)) \<and>
         contents m'' xi' =
           map (\<lambda>x. \<bar>(snd xbounds - fst xbounds)
                      - np_mod (x - snd xbounds) (2 * (snd xbounds - fst xbounds))\<bar> + fst xbounds)
               (contents m xi) \<and>
         (\<forall>b<next_buf m. length (buffers m'' b) = length (buffers m b) \<and>
            (\<forall>p<length (buffers m b). b \<noteq> buf yi \<or> p \<notin> cells yi \<longrightarrow>
               buffers m'' b ! p = buffers m b ! p)) \<and>
         (\<forall>v. buf v < next_buf m \<and> (\<forall>p\<in>cells v. p < length (buffers m (buf v))) \<and>
              (buf v \<noteq> buf yi \<or> cells v \<inter> cells yi = {}) \<longrightarrow>
              contents m'' v = contents m v)))"
proof (intro conjI impI allI)
  show "fst (r2xy_mem m r) = m" by (simp add: r2xy_mem_def)
  show "contents m (fst (snd (r2xy_mem m r))) = fst (r2xy (contents m r))"
    by (simp add: r2xy_mem_def r2xy_mem_contents)
  show "contents m (snd (snd (r2xy_mem m r))) = snd (r2xy (contents m r))"
    by (simp add: r2xy_mem_def r2xy_mem_contents)
  show "(\<exists>e. xy2r_mem m x y = Inl e) \<longleftrightarrow> len x \<noteq> len y" by (rule xy2r_mem_error)
next
  fix b assume "xy2r_mem m x y = Inr (m', a)" "b < next_buf m"
  then show "buffers m' b = buffers m b" by (rule xy2r_mem_effect(3))
next
  assume "xy2r_mem m x y = Inr (m', a)" "buf x < next_buf m \<and> buf y < next_buf m"
  then show "xy2r (contents m x) (contents m y) = Inr (contents m' a)"
    using xy2r_mem_effect(4) by blast
next
  assume e: "map_into_domain m xi yi xbounds ybounds = (m'', xi', yi')"
  show "yi' = yi" "buf xi' = next_buf m"
    using map_into_domain_effect(1,4) [OF e] by simp_all
  show "buffers m'' b = buffers m b" if "b < next_buf m" "b \<noteq> buf yi" for b
    using that map_into_domain_effect(2) [OF e] by simp
  assume v: "valid_view m yi"
  show "contents m'' yi = map (\<lambda>y. if y < fst ybounds then fst ybounds else y)
                            (map (\<lambda>y. if y > snd ybounds then snd ybounds else y)
                               (contents m yi))"
    using v map_into_domain_effect(3) [OF e] by simp
  show "contents m'' xi' =
           map (\<lambda>x. \<bar>(snd xbounds - fst xbounds)
                      - np_mod (x - snd xbounds) (2 * (snd xbounds - fst xbounds))\<bar> + fst xbounds)
               (contents m xi)"
    by (rule map_into_domain_cells(3) [OF e v])
  show "length (buffers m'' b) = length (buffers m b)" if "b < next_buf m" for b
    using that by (rule map_into_domain_cells(1) [OF e v])
  show "buffers m'' b ! p = buffers m b ! p"
    if "b < next_buf m" "p < length (buffers m b)" "b \<noteq> buf yi \<or> p \<notin> cells yi" for b p
    using that by (rule map_into_domain_cells(2) [OF e v])
  show "contents m'' w = contents m w"
    if "buf w < next_buf m \<and> (\<forall>p\<in>cells w. p < length (buffers m (buf w))) \<and>
        (buf w \<noteq> buf yi \<or> cells w \<inter> cells yi = {})" for w
    using that map_into_domain_other_views [OF e v, of w] by blast
qed

theorem helper_functions_frame_witness:
  "valid_view shared_memory (view_step2_from1 shared_r) \<and>
   r2xy_mem shared_memory shared_r
     = (shared_memory, view_step2 shared_r, view_step2_from1 shared_r) \<and>
   contents shared_memory shared_r = [0, 2] \<and>
   contents (fst (map_into_domain shared_memory (view_step2 shared_r) (view_step2_from1 shared_r)
                    (- 1, 1) (- 1, 1))) (view_step2_from1 shared_r) = [1] \<and>
   contents (fst (map_into_domain shared_memory (view_step2 shared_r) (view_step2_from1 shared_r)
                    (- 1, 1) (- 1, 1))) (view_step2 shared_r) = [0] \<and>
   buffers (fst (map_into_domain shared_memory (view_step2 shared_r) (view_step2_from1 shared_r)
                    (- 1, 1) (- 1, 1))) 0 ! 0 = 0"
proof -
  let ?xi = "view_step2 shared_r" and ?yi = "view_step2_from1 shared_r"
  let ?R = "map_into_domain shared_memory ?xi ?yi (- 1, 1) (- 1, 1)"
  note inst = helper_functions_frame [where m = shared_memory and r = shared_r
      and xi = ?xi and yi = ?yi and xbounds = "(- 1, 1)" and ybounds = "(- 1, 1)"
      and m'' = "fst ?R" and xi' = "fst (snd ?R)" and yi' = "snd (snd ?R)"]
  note c6 = inst [THEN conjunct2, THEN conjunct2, THEN conjunct2, THEN conjunct2, THEN conjunct2]
  have t: "?R = (fst ?R, fst (snd ?R), snd (snd ?R))" by simp
  note d = c6 [THEN mp, OF t]
  note d4 = d [THEN conjunct2, THEN conjunct2, THEN conjunct2, THEN mp, OF shared_valid]
  note yi_new = d4 [THEN conjunct1]
  note cell = d4 [THEN conjunct2, THEN conjunct2, THEN conjunct1]
  note views = d4 [THEN conjunct2, THEN conjunct2, THEN conjunct2]
  have r: "r2xy_mem shared_memory shared_r = (shared_memory, ?xi, ?yi)"
    by (simp add: r2xy_mem_def)
  from yi_new have c1: "contents (fst ?R) ?yi = [1]" by (simp add: shared_contents)
  have "buf ?xi < next_buf shared_memory \<and>
        (\<forall>p\<in>cells ?xi. p < length (buffers shared_memory (buf ?xi))) \<and>
        (buf ?xi \<noteq> buf ?yi \<or> cells ?xi \<inter> cells ?yi = {})"
    by (simp add: shared_cells) (simp add: shared_views shared_memory_def)
  from views [THEN spec, of ?xi, THEN mp, OF this]
  have c2: "contents (fst ?R) ?xi = [0]" by (simp add: shared_contents)
  have z: "(0::nat) < next_buf shared_memory" "(0::nat) < length (buffers shared_memory 0)"
    "0 \<notin> cells ?yi" "buffers shared_memory 0 ! 0 = 0"
    by (simp_all add: shared_memory_def shared_cells)
  from cell [THEN spec, of 0, THEN mp, OF z(1), THEN conjunct2, THEN spec, of 0, THEN mp, OF z(2)]
    z(3,4)
  have c3: "buffers (fst ?R) 0 ! 0 = 0" by simp
  from shared_valid r shared_contents(1) c1 c2 c3 show ?thesis by (intro conjI)
qed

end
